theory Spec2Isabelle
  imports Main "HOL-Library.Word" "HOL-Library.AList"
begin

section \<open>The blocking writeback cache of src/labs\<close>

text \<open>
  The three cache classes of the repository (DirectCache, FullyAssocCache,
  SetAssocCache) share the text of their controller: the two ports,
  handleRequest, handleResponse, sendResponse, handleFunctional and
  accessTiming are the same code up to the class name. They differ in the
  store and in the two functions that touch it, accessFunctional and insert
  (both unimplemented in SetAssocCache). The controller is therefore embedded
  once, over the type of the store, and takes accessFunctional and insert of
  the class as arguments.

  Addresses (Addr, 64 bit), sizes (unsigned) and ticks are natural numbers: the
  code only subtracts a block address from an address inside that block, adds
  a size to the difference, takes remainders and compares, and none of that can
  wrap. The statistics counters are natural numbers as well.

  Every panic, panic_if and assert of the source is a value of type error, and
  an operation that can reach one returns a sum. The asserts are taken as
  enabled, as in the simulator's debug and opt builds.

  The transport, the scheduler, the random generator and the hash table of the
  standard library belong to the host. What they answer during one call of the
  cache (the current tick, whether sendTimingReq and sendTimingResp accept, the
  numbers the generator draws, how the hash table lays its keys out in
  buckets) is the argument of type Host. What the cache hands to the transport
  is appended to the field sent, and the events it schedules to the field
  accessEvents. The transport runs no code of the cache inside sendTimingReq,
  sendTimingResp or sendRetryReq: a call of the cache is one step.
\<close>

type_synonym Addr = nat
type_synonym byte = "8 word"

text \<open>
  An error names the function that raised it and the message or the condition
  of the source. DivideByZero and OutOfRange are the remainder by a capacity of
  0 and an index outside a vector, which the source does not check. NoReturn is
  a loop that has not ended with the draws the host gave. HostProtocol is not
  an error of the cache: the host made a call that the port protocol excludes.
\<close>

datatype error =
    Panic string string
  | AssertFailed string string
  | DivideByZero string
  | OutOfRange string
  | NoReturn string
  | HostProtocol string

subsection \<open>Packets and requests\<close>

text \<open>
  Modelled from the spec: the classes Packet, Request and MemCmd belong to the
  host simulator and are not part of the repository's sources. Sections 3 and
  4.1 of the specification give their attributes and the operations the
  controller uses: the block-aligned tag \<open>a - (a mod blockSize)\<close>, the
  predicates on the command, allocate, the two copies between a payload and a
  line at the offset of the access inside its block, makeResponse, and the
  two packets the controller builds itself (a block-sized packet on a request,
  whose address is block-aligned). The commands are the reads and writes the
  specification names, their responses, the writeback, and two commands that
  are neither a read nor a write (one of them wants a response), for the
  branches of the source that reject such a packet.
\<close>

datatype MemCmd =
    InvalidCmd | ReadReq | ReadResp | WriteReq | WriteResp | WritebackDirty
  | CleanEvict | MemFenceReq | MemFenceResp

record Request =
  paddr :: Addr
  rsize :: nat
  flags :: nat
  requestorId :: nat

record Packet =
  req :: Request
  cmd :: MemCmd
  getAddr :: Addr
  getSize :: nat
  data :: "byte list"

definition isRead :: "Packet \<Rightarrow> bool" where
  "isRead pkt = (cmd pkt = ReadReq \<or> cmd pkt = ReadResp)"

definition isWrite :: "Packet \<Rightarrow> bool" where
  "isWrite pkt = (cmd pkt = WriteReq \<or> cmd pkt = WriteResp \<or> cmd pkt = WritebackDirty)"

definition isResponse :: "Packet \<Rightarrow> bool" where
  "isResponse pkt = (cmd pkt = ReadResp \<or> cmd pkt = WriteResp \<or> cmd pkt = MemFenceResp)"

definition needsResponse :: "Packet \<Rightarrow> bool" where
  "needsResponse pkt = (cmd pkt = ReadReq \<or> cmd pkt = WriteReq \<or> cmd pkt = MemFenceReq)"

fun responseCommand :: "MemCmd \<Rightarrow> MemCmd" where
  "responseCommand ReadReq = ReadResp"
| "responseCommand WriteReq = WriteResp"
| "responseCommand MemFenceReq = MemFenceResp"
| "responseCommand c = InvalidCmd"

definition makeResponse :: "Packet \<Rightarrow> Packet" where
  "makeResponse pkt = pkt\<lparr>cmd := responseCommand (cmd pkt)\<rparr>"

definition blockAlign :: "Addr \<Rightarrow> nat \<Rightarrow> Addr" where
  "blockAlign a blkSize = a - a mod blkSize"

definition getBlockAddr :: "Packet \<Rightarrow> nat \<Rightarrow> Addr" where
  "getBlockAddr pkt blkSize = blockAlign (getAddr pkt) blkSize"

definition getOffset :: "Packet \<Rightarrow> nat \<Rightarrow> nat" where
  "getOffset pkt blkSize = getAddr pkt - getBlockAddr pkt blkSize"

definition Request_new :: "Addr \<Rightarrow> nat \<Rightarrow> nat \<Rightarrow> nat \<Rightarrow> Request" where
  "Request_new a sz fl rid = \<lparr>paddr = a, rsize = sz, flags = fl, requestorId = rid\<rparr>"

definition Packet_new :: "Request \<Rightarrow> MemCmd \<Rightarrow> Packet" where
  "Packet_new r c = \<lparr>req = r, cmd = c, getAddr = paddr r, getSize = rsize r, data = []\<rparr>"

definition Packet_blk :: "Request \<Rightarrow> MemCmd \<Rightarrow> nat \<Rightarrow> Packet" where
  "Packet_blk r c blkSize =
     \<lparr>req = r, cmd = c, getAddr = blockAlign (paddr r) blkSize, getSize = blkSize, data = []\<rparr>"

definition allocate :: "Packet \<Rightarrow> Packet" where
  "allocate pkt = pkt\<lparr>data := replicate (getSize pkt) 0\<rparr>"

definition dataDynamic :: "Packet \<Rightarrow> byte list \<Rightarrow> Packet" where
  "dataDynamic pkt d = pkt\<lparr>data := d\<rparr>"

text \<open>
  The two copies are memcpy of getSize bytes at the offset of the packet in its
  block. They are written for an access that lies within the block, with a
  payload of getSize bytes; the source does not check either.
\<close>

definition writeDataToBlock :: "Packet \<Rightarrow> byte list \<Rightarrow> nat \<Rightarrow> byte list" where
  "writeDataToBlock pkt blk blkSize =
     (let off = getOffset pkt blkSize in
      take off blk @ take (getSize pkt) (data pkt) @ drop (off + getSize pkt) blk)"

definition setDataFromBlock :: "Packet \<Rightarrow> byte list \<Rightarrow> nat \<Rightarrow> Packet" where
  "setDataFromBlock pkt blk blkSize =
     pkt\<lparr>data := take (getSize pkt) (drop (getOffset pkt blkSize) blk)\<rparr>"

subsection \<open>Ports, host and controller state\<close>

record CPUSidePort =
  needRetry :: bool
  blockedPacket :: "Packet option"

record MemSidePort =
  memBlockedPacket :: "Packet option"

text \<open>
  What leaves the cache is a call of the transport, kept with the transport's
  answer. The fields of the cache record are the members of the class; its
  last four fields are the host's: the scheduled access events, what was sent,
  and the books that only the function step below writes, namely the request
  the memory side has accepted and owes a response to, and the number of access
  events that ran. waitingPortId is an int whose value -1 stands for no port.
\<close>

datatype Msg =
    SendTimingReq Packet bool
  | SendTimingResp nat Packet bool
  | SendRetryReq nat
  | SendFunctional Packet

record Host =
  curTick :: nat
  reqAccepted :: bool
  respAccepted :: bool
  draws :: "nat list"
  bucket_count :: nat
  bucket_of :: "Addr \<Rightarrow> nat"

record 's Cache =
  blockSize :: nat
  capacity :: nat
  cpuPorts :: "CPUSidePort list"
  memPort :: MemSidePort
  blocked :: bool
  originalPacket :: "Packet option"
  waitingPortId :: int
  missTime :: nat
  cacheStore :: 's
  hits :: nat
  misses :: nat
  missLatency :: "nat list"
  accessEvents :: "Packet list"
  sent :: "Msg list"
  outstanding :: "Packet option"
  timingAccesses :: nat

subsection \<open>The ports\<close>

definition CPUSidePort_sendPacket ::
  "('s, 'm) Cache_scheme \<Rightarrow> int \<Rightarrow> Packet \<Rightarrow> Host \<Rightarrow> error + ('s, 'm) Cache_scheme" where
  "CPUSidePort_sendPacket st port pkt h =
     (if port < 0 \<or> int (length (cpuPorts st)) \<le> port then Inl (OutOfRange ''cpuPorts[port]'')
      else
        let p = cpuPorts st ! nat port in
        if blockedPacket p \<noteq> None
        then Inl (Panic ''CPUSidePort::sendPacket'' ''Should never try to send if blocked!'')
        else Inr (st\<lparr>cpuPorts := (cpuPorts st)
                         [nat port := (if respAccepted h then p
                                       else p\<lparr>blockedPacket := Some pkt\<rparr>)],
                      sent := sent st @ [SendTimingResp (nat port) pkt (respAccepted h)]\<rparr>))"

definition trySendRetry :: "('s, 'm) Cache_scheme \<Rightarrow> nat \<Rightarrow> ('s, 'm) Cache_scheme" where
  "trySendRetry st i =
     (let p = cpuPorts st ! i in
      if needRetry p \<and> blockedPacket p = None
      then st\<lparr>cpuPorts := (cpuPorts st)[i := p\<lparr>needRetry := False\<rparr>],
              sent := sent st @ [SendRetryReq i]\<rparr>
      else st)"

definition MemSidePort_sendPacket ::
  "('s, 'm) Cache_scheme \<Rightarrow> Packet \<Rightarrow> Host \<Rightarrow> error + ('s, 'm) Cache_scheme" where
  "MemSidePort_sendPacket st pkt h =
     (if memBlockedPacket (memPort st) \<noteq> None
      then Inl (Panic ''MemSidePort::sendPacket'' ''Should never try to send if blocked!'')
      else Inr (st\<lparr>memPort := (if reqAccepted h then memPort st
                                 else (memPort st)\<lparr>memBlockedPacket := Some pkt\<rparr>),
                    sent := sent st @ [SendTimingReq pkt (reqAccepted h)]\<rparr>))"

definition recvReqRetry ::
  "('s, 'm) Cache_scheme \<Rightarrow> Host \<Rightarrow> error + ('s, 'm) Cache_scheme" where
  "recvReqRetry st h =
     (case memBlockedPacket (memPort st) of
        None \<Rightarrow> Inl (AssertFailed ''MemSidePort::recvReqRetry'' ''blockedPacket != nullptr'')
      | Some pkt \<Rightarrow>
          MemSidePort_sendPacket
            (st\<lparr>memPort := (memPort st)\<lparr>memBlockedPacket := None\<rparr>\<rparr>) pkt h)"

definition recvRespRetry ::
  "('s, 'm) Cache_scheme \<Rightarrow> nat \<Rightarrow> Host \<Rightarrow> error + ('s, 'm) Cache_scheme" where
  "recvRespRetry st i h =
     (if length (cpuPorts st) \<le> i then Inl (OutOfRange ''cpuPorts[i]'')
      else
        case blockedPacket (cpuPorts st ! i) of
          None \<Rightarrow> Inl (AssertFailed ''CPUSidePort::recvRespRetry'' ''blockedPacket != nullptr'')
        | Some pkt \<Rightarrow>
            (case CPUSidePort_sendPacket
                    (st\<lparr>cpuPorts := (cpuPorts st)
                          [i := (cpuPorts st ! i)\<lparr>blockedPacket := None\<rparr>]\<rparr>)
                    (int i) pkt h of
               Inl e \<Rightarrow> Inl e
             | Inr st1 \<Rightarrow> Inr (trySendRetry st1 i)))"

subsection \<open>The controller\<close>

definition handleRequest ::
  "('s, 'm) Cache_scheme \<Rightarrow> Packet \<Rightarrow> nat \<Rightarrow> error + (bool \<times> ('s, 'm) Cache_scheme)" where
  "handleRequest st pkt port_id =
     (if blocked st then Inr (False, st)
      else if waitingPortId st \<noteq> -1
      then Inl (AssertFailed ''handleRequest'' ''waitingPortId == -1'')
      else Inr (True, st\<lparr>blocked := True, waitingPortId := int port_id,
                         accessEvents := accessEvents st @ [pkt]\<rparr>))"

definition recvTimingReq ::
  "('s, 'm) Cache_scheme \<Rightarrow> nat \<Rightarrow> Packet \<Rightarrow> error + (bool \<times> ('s, 'm) Cache_scheme)" where
  "recvTimingReq st i pkt =
     (if length (cpuPorts st) \<le> i then Inl (OutOfRange ''cpuPorts[i]'')
      else
        let p = cpuPorts st ! i in
        if blockedPacket p \<noteq> None \<or> needRetry p
        then Inr (False, st\<lparr>cpuPorts := (cpuPorts st)[i := p\<lparr>needRetry := True\<rparr>]\<rparr>)
        else
          (case handleRequest st pkt i of
             Inl e \<Rightarrow> Inl e
           | Inr (ok, st1) \<Rightarrow>
               if \<not> ok
               then Inr (False, st1\<lparr>cpuPorts := (cpuPorts st1)
                                       [i := (cpuPorts st1 ! i)\<lparr>needRetry := True\<rparr>]\<rparr>)
               else Inr (True, st1)))"

definition sendResponse ::
  "('s, 'm) Cache_scheme \<Rightarrow> Packet \<Rightarrow> Host \<Rightarrow> error + ('s, 'm) Cache_scheme" where
  "sendResponse st pkt h =
     (if \<not> blocked st then Inl (AssertFailed ''sendResponse'' ''blocked'')
      else
        let port = waitingPortId st;
            st1 = st\<lparr>blocked := False, waitingPortId := -1\<rparr>
        in case CPUSidePort_sendPacket st1 port pkt h of
             Inl e \<Rightarrow> Inl e
           | Inr st2 \<Rightarrow> Inr (foldl trySendRetry st2 [0..<length (cpuPorts st2)]))"

definition handleResponse ::
  "(('s, 'm) Cache_scheme \<Rightarrow> Packet \<Rightarrow> Host \<Rightarrow> error + ('s, 'm) Cache_scheme) \<Rightarrow>
   (('s, 'm) Cache_scheme \<Rightarrow> Packet \<Rightarrow>
      error + (bool \<times> ('s, 'm) Cache_scheme \<times> Packet)) \<Rightarrow>
   ('s, 'm) Cache_scheme \<Rightarrow> Packet \<Rightarrow> Host \<Rightarrow> error + (bool \<times> ('s, 'm) Cache_scheme)" where
  "handleResponse ins accF st pkt h =
     (if \<not> blocked st then Inl (AssertFailed ''handleResponse'' ''blocked'')
      else
        case ins st pkt h of
          Inl e \<Rightarrow> Inl e
        | Inr st1 \<Rightarrow>
            let st2 = st1\<lparr>missLatency := missLatency st1 @ [curTick h - missTime st1]\<rparr> in
            (case originalPacket st2 of
               Some orig \<Rightarrow>
                 (case accF st2 orig of
                    Inl e \<Rightarrow> Inl e
                  | Inr (hit, st3, orig1) \<Rightarrow>
                      if \<not> hit
                      then Inl (Panic ''handleResponse'' ''Should always hit after inserting'')
                      else
                        (case sendResponse (st3\<lparr>originalPacket := None\<rparr>)
                                (makeResponse orig1) h of
                           Inl e \<Rightarrow> Inl e
                         | Inr st4 \<Rightarrow> Inr (True, st4)))
             | None \<Rightarrow>
                 (case sendResponse st2 pkt h of
                    Inl e \<Rightarrow> Inl e
                  | Inr st4 \<Rightarrow> Inr (True, st4))))"

definition handleFunctional ::
  "(('s, 'm) Cache_scheme \<Rightarrow> Packet \<Rightarrow>
      error + (bool \<times> ('s, 'm) Cache_scheme \<times> Packet)) \<Rightarrow>
   ('s, 'm) Cache_scheme \<Rightarrow> Packet \<Rightarrow> error + (('s, 'm) Cache_scheme \<times> Packet)" where
  "handleFunctional accF st pkt =
     (case accF st pkt of
        Inl e \<Rightarrow> Inl e
      | Inr (hit, st1, pkt1) \<Rightarrow>
          if hit then Inr (st1, makeResponse pkt1)
          else Inr (st1\<lparr>sent := sent st1 @ [SendFunctional pkt1]\<rparr>, pkt1))"

definition recvTimingResp ::
  "(('s, 'm) Cache_scheme \<Rightarrow> Packet \<Rightarrow> Host \<Rightarrow> error + ('s, 'm) Cache_scheme) \<Rightarrow>
   (('s, 'm) Cache_scheme \<Rightarrow> Packet \<Rightarrow>
      error + (bool \<times> ('s, 'm) Cache_scheme \<times> Packet)) \<Rightarrow>
   ('s, 'm) Cache_scheme \<Rightarrow> Packet \<Rightarrow> Host \<Rightarrow> error + (bool \<times> ('s, 'm) Cache_scheme)" where
  "recvTimingResp ins accF st pkt h = handleResponse ins accF st pkt h"

definition recvFunctional ::
  "(('s, 'm) Cache_scheme \<Rightarrow> Packet \<Rightarrow>
      error + (bool \<times> ('s, 'm) Cache_scheme \<times> Packet)) \<Rightarrow>
   ('s, 'm) Cache_scheme \<Rightarrow> Packet \<Rightarrow> error + (('s, 'm) Cache_scheme \<times> Packet)" where
  "recvFunctional accF st pkt = handleFunctional accF st pkt"

definition accessTiming ::
  "(('s, 'm) Cache_scheme \<Rightarrow> Packet \<Rightarrow>
      error + (bool \<times> ('s, 'm) Cache_scheme \<times> Packet)) \<Rightarrow>
   ('s, 'm) Cache_scheme \<Rightarrow> Packet \<Rightarrow> Host \<Rightarrow> error + ('s, 'm) Cache_scheme" where
  "accessTiming accF st pkt0 h =
     (case accF st pkt0 of
        Inl e \<Rightarrow> Inl e
      | Inr (hit, st1, pkt) \<Rightarrow>
          if hit then sendResponse (st1\<lparr>hits := hits st1 + 1\<rparr>) (makeResponse pkt) h
          else
            let st2 = st1\<lparr>misses := misses st1 + 1, missTime := curTick h\<rparr>;
                addr = getAddr pkt;
                block_addr = getBlockAddr pkt (blockSize st2);
                size = getSize pkt
            in
            if addr = block_addr \<and> size = blockSize st2 then MemSidePort_sendPacket st2 pkt h
            else if addr - block_addr + size > blockSize st2
            then Inl (Panic ''accessTiming''
                        ''Cannot handle accesses that span multiple cache lines'')
            else if \<not> needsResponse pkt
            then Inl (AssertFailed ''accessTiming'' ''pkt->needsResponse()'')
            else if \<not> (isWrite pkt \<or> isRead pkt)
            then Inl (Panic ''accessTiming'' ''Unknown packet type in upgrade size'')
            else
              let new_pkt = allocate (Packet_blk (req pkt) ReadReq (blockSize st2)) in
              if getAddr new_pkt \<noteq> getBlockAddr new_pkt (blockSize st2)
              then Inl (AssertFailed ''accessTiming''
                          ''new_pkt->getAddr() == new_pkt->getBlockAddr(blockSize)'')
              else MemSidePort_sendPacket (st2\<lparr>originalPacket := Some pkt\<rparr>) new_pkt h)"

subsection \<open>DirectCache: the store and its two functions\<close>

text \<open>
  The store is a vector of capacity pairs of a tag and a pointer to the line;
  a null pointer is \<open>None\<close>. The buffer that insert allocates is not
  initialised in the source; here it is zeroes, and writeDataToBlock of the
  packet overwrites the bytes the packet covers, all of them for a block-sized
  packet. The remainder by a capacity of 0 and an index beyond the vector are
  errors of their own.
\<close>

type_synonym DStore = "(Addr \<times> byte list option) list"

definition DirectCache_new :: "nat \<Rightarrow> nat \<Rightarrow> nat \<Rightarrow> DStore Cache" where
  "DirectCache_new blkSize cap nports =
     \<lparr>blockSize = blkSize, capacity = cap,
      cpuPorts = replicate nports \<lparr>needRetry = False, blockedPacket = None\<rparr>,
      memPort = \<lparr>memBlockedPacket = None\<rparr>,
      blocked = False, originalPacket = None, waitingPortId = -1, missTime = 0,
      cacheStore = replicate cap (0, None),
      hits = 0, misses = 0, missLatency = [], accessEvents = [], sent = [],
      outstanding = None, timingAccesses = 0\<rparr>"

definition DirectCache_accessFunctional ::
  "DStore Cache \<Rightarrow> Packet \<Rightarrow> error + (bool \<times> DStore Cache \<times> Packet)" where
  "DirectCache_accessFunctional st pkt =
     (let block_addr = getBlockAddr pkt (blockSize st) in
      if capacity st = 0 then Inl (DivideByZero ''block_addr % capacity'')
      else
        let idx = block_addr mod capacity st in
        if length (cacheStore st) \<le> idx then Inl (OutOfRange ''cacheStore[idx]'')
        else
          let it = cacheStore st ! idx in
          (case snd it of
             Some line \<Rightarrow>
               if fst it = block_addr then
                 (if isWrite pkt
                  then Inr (True,
                            st\<lparr>cacheStore := (cacheStore st)
                                  [idx := (fst it,
                                           Some (writeDataToBlock pkt line (blockSize st)))]\<rparr>,
                            pkt)
                  else if isRead pkt
                  then Inr (True, st, setDataFromBlock pkt line (blockSize st))
                  else Inl (Panic ''accessFunctional'' ''Unknown packet type!''))
               else Inr (False, st, pkt)
           | None \<Rightarrow> Inr (False, st, pkt)))"

definition DirectCache_insert :: "DStore Cache \<Rightarrow> Packet \<Rightarrow> Host \<Rightarrow> error + DStore Cache" where
  "DirectCache_insert st pkt h =
     (if capacity st = 0 then Inl (DivideByZero ''pkt->getBlockAddr(blockSize) % capacity'')
      else
        let idx = getBlockAddr pkt (blockSize st) mod capacity st in
        if getAddr pkt \<noteq> getBlockAddr pkt (blockSize st)
        then Inl (AssertFailed ''insert'' ''pkt->getAddr() == pkt->getBlockAddr(blockSize)'')
        else if length (cacheStore st) \<le> idx then Inl (OutOfRange ''cacheStore[idx]'')
        else if \<not> (snd (cacheStore st ! idx) = None \<or>
                    fst (cacheStore st ! idx) \<noteq> getBlockAddr pkt (blockSize st))
        then Inl (AssertFailed ''insert''
               ''!cacheStore[idx].second || cacheStore[idx].first != pkt->getBlockAddr(blockSize)'')
        else if \<not> isResponse pkt then Inl (AssertFailed ''insert'' ''pkt->isResponse()'')
        else
          (case (case snd (cacheStore st ! idx) of
                   Some victim \<Rightarrow>
                     let block = cacheStore st ! idx;
                         rq = Request_new (fst block) (blockSize st) 0 0;
                         new_pkt =
                           dataDynamic (Packet_blk rq WritebackDirty (blockSize st)) victim
                     in MemSidePort_sendPacket st new_pkt h
                 | None \<Rightarrow> Inr st) of
             Inl e \<Rightarrow> Inl e
           | Inr st1 \<Rightarrow>
               let dat = replicate (blockSize st1) 0 in
               Inr (st1\<lparr>cacheStore := (cacheStore st1)
                          [idx := (getBlockAddr pkt (blockSize st1),
                                   Some (writeDataToBlock pkt dat (blockSize st1)))]\<rparr>)))"

subsection \<open>FullyAssocCache: the store and its two functions\<close>

text \<open>
  The store is a std::unordered_map from block address to line: here the list of
  its entries, with find as \<open>map_of\<close>, erase as \<open>AList.delete\<close> and the
  assignment to \<open>cacheStore[k]\<close> as \<open>AList.update\<close>. How the library
  spreads the entries over buckets is the host's: \<open>bucket_count\<close> and
  \<open>bucket_of\<close>. The random generator's future results are the list
  \<open>draws\<close>; \<open>random(lo, hi)\<close> reduces the next one to the range. The
  loop that looks for a non-empty bucket ends when a draw hits one, and an
  insert that uses up the draws before that has not returned (NoReturn).
\<close>

type_synonym FStore = "(Addr \<times> byte list) list"

record FullyAssocCache = "FStore Cache" +
  optimizedAlgorithm :: bool

definition FullyAssocCache_new :: "nat \<Rightarrow> nat \<Rightarrow> nat \<Rightarrow> bool \<Rightarrow> FullyAssocCache" where
  "FullyAssocCache_new blkSize cap nports opt =
     \<lparr>blockSize = blkSize, capacity = cap,
      cpuPorts = replicate nports \<lparr>needRetry = False, blockedPacket = None\<rparr>,
      memPort = \<lparr>memBlockedPacket = None\<rparr>,
      blocked = False, originalPacket = None, waitingPortId = -1, missTime = 0,
      cacheStore = [],
      hits = 0, misses = 0, missLatency = [], accessEvents = [], sent = [],
      outstanding = None, timingAccesses = 0,
      optimizedAlgorithm = opt\<rparr>"

definition random_mt_random :: "nat \<Rightarrow> nat \<Rightarrow> nat \<Rightarrow> nat" where
  "random_mt_random lo hi d = lo + d mod (hi - lo + 1)"

definition bucket :: "Host \<Rightarrow> FStore \<Rightarrow> nat \<Rightarrow> (Addr \<times> byte list) list" where
  "bucket h m b = filter (\<lambda>e. bucket_of h (fst e) = b) m"

fun pick_bucket :: "Host \<Rightarrow> FStore \<Rightarrow> nat list \<Rightarrow> (nat \<times> nat list) option" where
  "pick_bucket h m [] = None"
| "pick_bucket h m (d # ds) =
     (let b = random_mt_random 0 (bucket_count h - 1) d in
      if length (bucket h m b) = 0 then pick_bucket h m ds else Some (b, ds))"

definition select_victim :: "Host \<Rightarrow> FStore \<Rightarrow> error + (Addr \<times> byte list)" where
  "select_victim h m =
     (if bucket_count h = 0 then Inl (HostProtocol ''an unordered_map has a bucket'')
      else
        case pick_bucket h m (draws h) of
          None \<Rightarrow> Inl (NoReturn ''do { bucket = random } while (bucket_size == 0)'')
        | Some (b, ds) \<Rightarrow>
            (case ds of
               [] \<Rightarrow> Inl (NoReturn ''random_mt.random(0, bucket_size - 1)'')
             | d # _ \<Rightarrow>
                 Inr (bucket h m b ! random_mt_random 0 (length (bucket h m b) - 1) d)))"

definition FullyAssocCache_accessFunctional ::
  "FullyAssocCache \<Rightarrow> Packet \<Rightarrow> error + (bool \<times> FullyAssocCache \<times> Packet)" where
  "FullyAssocCache_accessFunctional st pkt =
     (let block_addr = getBlockAddr pkt (blockSize st) in
      case map_of (cacheStore st) block_addr of
        Some line \<Rightarrow>
          if optimizedAlgorithm st then Inl (Panic ''accessFunctional'' ''TODO: hit block'')
          else if isWrite pkt
          then Inr (True,
                    st\<lparr>cacheStore := AList.update block_addr
                          (writeDataToBlock pkt line (blockSize st)) (cacheStore st)\<rparr>,
                    pkt)
          else if isRead pkt
          then Inr (True, st, setDataFromBlock pkt line (blockSize st))
          else Inl (Panic ''accessFunctional'' ''Unknown packet type!'')
      | None \<Rightarrow> Inr (False, st, pkt))"

definition FullyAssocCache_insert ::
  "FullyAssocCache \<Rightarrow> Packet \<Rightarrow> Host \<Rightarrow> error + FullyAssocCache" where
  "FullyAssocCache_insert st pkt h =
     (if getAddr pkt \<noteq> getBlockAddr pkt (blockSize st)
      then Inl (AssertFailed ''insert'' ''pkt->getAddr() == pkt->getBlockAddr(blockSize)'')
      else if map_of (cacheStore st) (getAddr pkt) \<noteq> None
      then Inl (AssertFailed ''insert''
                  ''cacheStore.find(pkt->getAddr()) == cacheStore.end()'')
      else if \<not> isResponse pkt then Inl (AssertFailed ''insert'' ''pkt->isResponse()'')
      else
        (case (if length (cacheStore st) \<ge> capacity st
               then
                 (if optimizedAlgorithm st then Inl (Panic ''insert'' ''TODO: evict block'')
                  else
                    case select_victim h (cacheStore st) of
                      Inl e \<Rightarrow> Inl e
                    | Inr block \<Rightarrow>
                        let rq = Request_new (fst block) (blockSize st) 0 0;
                            new_pkt = dataDynamic (Packet_blk rq WritebackDirty (blockSize st))
                                        (snd block)
                        in (case MemSidePort_sendPacket st new_pkt h of
                              Inl e \<Rightarrow> Inl e
                            | Inr st1 \<Rightarrow>
                                Inr (st1\<lparr>cacheStore :=
                                           AList.delete (fst block) (cacheStore st1)\<rparr>)))
               else Inr st) of
           Inl e \<Rightarrow> Inl e
         | Inr st1 \<Rightarrow>
             let dat = replicate (blockSize st1) 0;
                 st2 = st1\<lparr>cacheStore := AList.update (getAddr pkt) dat (cacheStore st1)\<rparr>
             in
             if optimizedAlgorithm st2 then Inl (Panic ''insert'' ''TODO: insert block'')
             else Inr (st2\<lparr>cacheStore := AList.update (getAddr pkt)
                                (writeDataToBlock pkt dat (blockSize st2)) (cacheStore st2)\<rparr>)))"

subsection \<open>Executions\<close>

text \<open>
  The host drives the cache through its callbacks, one at a time. An Event is
  one such call together with the host's answers during it. The function step
  runs the callback, refuses (HostProtocol) a call the port protocol does not
  allow at that moment, and keeps the host's books: the memory side delivers a
  response only to the request it accepted last and has not answered yet,
  a port is invited to retry only while it holds a refused packet, and the
  scheduler runs only an access event that was scheduled.
\<close>

datatype Event =
    RecvTimingReq nat Packet
  | AccessEvent Host
  | RecvTimingResp "byte list" Host
  | RecvReqRetry Host
  | RecvRespRetry nat Host
  | RecvFunctional nat Packet

definition accepted_request :: "Msg list \<Rightarrow> Packet option" where
  "accepted_request ms =
     (case ms of
        [] \<Rightarrow> None
      | _ \<Rightarrow>
        (case last ms of
           SendTimingReq pkt ok \<Rightarrow> if ok \<and> needsResponse pkt then Some pkt else None
         | _ \<Rightarrow> None))"

definition note_request ::
  "('s, 'm) Cache_scheme \<Rightarrow> ('s, 'm) Cache_scheme \<Rightarrow> ('s, 'm) Cache_scheme" where
  "note_request st st1 =
     (case accepted_request (drop (length (sent st)) (sent st1)) of
        None \<Rightarrow> st1
      | Some pkt \<Rightarrow> st1\<lparr>outstanding := Some pkt\<rparr>)"

definition response_to :: "Packet \<Rightarrow> byte list \<Rightarrow> Packet" where
  "response_to q payload =
     makeResponse (if isRead q then q\<lparr>data := payload\<rparr> else q)"

definition step ::
  "(('s, 'm) Cache_scheme \<Rightarrow> Packet \<Rightarrow> Host \<Rightarrow> error + ('s, 'm) Cache_scheme) \<Rightarrow>
   (('s, 'm) Cache_scheme \<Rightarrow> Packet \<Rightarrow>
      error + (bool \<times> ('s, 'm) Cache_scheme \<times> Packet)) \<Rightarrow>
   Event \<Rightarrow> ('s, 'm) Cache_scheme \<Rightarrow> error + ('s, 'm) Cache_scheme" where
  "step ins accF ev st =
     (case ev of
        RecvTimingReq i pkt \<Rightarrow>
          (case recvTimingReq st i pkt of Inl e \<Rightarrow> Inl e | Inr (ok, st1) \<Rightarrow> Inr st1)
      | AccessEvent h \<Rightarrow>
          (case accessEvents st of
             [] \<Rightarrow> Inl (HostProtocol ''no access event is scheduled'')
           | pkt # evs \<Rightarrow>
               (case accessTiming accF (st\<lparr>accessEvents := evs\<rparr>) pkt h of
                  Inl e \<Rightarrow> Inl e
                | Inr st1 \<Rightarrow>
                    Inr (note_request st (st1\<lparr>timingAccesses := timingAccesses st1 + 1\<rparr>))))
      | RecvTimingResp payload h \<Rightarrow>
          (case outstanding st of
             None \<Rightarrow> Inl (HostProtocol ''no request awaits a response'')
           | Some q \<Rightarrow>
               if isRead q \<and> length payload \<noteq> getSize q
               then Inl (HostProtocol ''the payload has not the size of the request'')
               else
                 (case recvTimingResp ins accF (st\<lparr>outstanding := None\<rparr>)
                         (response_to q payload) h of
                    Inl e \<Rightarrow> Inl e
                  | Inr (ok, st1) \<Rightarrow> Inr st1))
      | RecvReqRetry h \<Rightarrow>
          (case memBlockedPacket (memPort st) of
             None \<Rightarrow> Inl (HostProtocol ''no refused request is parked'')
           | Some pkt \<Rightarrow>
               (case recvReqRetry st h of
                  Inl e \<Rightarrow> Inl e
                | Inr st1 \<Rightarrow> Inr (note_request st st1)))
      | RecvRespRetry i h \<Rightarrow>
          (if length (cpuPorts st) \<le> i \<or> blockedPacket (cpuPorts st ! i) = None
           then Inl (HostProtocol ''no refused response is parked'')
           else recvRespRetry st i h)
      | RecvFunctional i pkt \<Rightarrow>
          (case recvFunctional accF st pkt of Inl e \<Rightarrow> Inl e | Inr (st1, pkt1) \<Rightarrow> Inr st1))"

fun run ::
  "(Event \<Rightarrow> 'a \<Rightarrow> error + 'a) \<Rightarrow> Event list \<Rightarrow> 'a \<Rightarrow> error + 'a" where
  "run stp [] st = Inr st"
| "run stp (ev # evs) st = (case stp ev st of Inl e \<Rightarrow> Inl e | Inr st1 \<Rightarrow> run stp evs st1)"

definition DirectCache_step :: "Event \<Rightarrow> DStore Cache \<Rightarrow> error + DStore Cache" where
  "DirectCache_step = step DirectCache_insert DirectCache_accessFunctional"

definition FullyAssocCache_step :: "Event \<Rightarrow> FullyAssocCache \<Rightarrow> error + FullyAssocCache" where
  "FullyAssocCache_step = step FullyAssocCache_insert FullyAssocCache_accessFunctional"

subsection \<open>Predicates for the statements\<close>

text \<open>
  \<open>writeback_of tag blkSize line\<close> is the packet that insert of both stores
  builds for a victim: a new request at the tag, a block-sized WritebackDirty
  packet on it, the buffer of the victim as its payload.
\<close>

definition writeback_of :: "Addr \<Rightarrow> nat \<Rightarrow> byte list \<Rightarrow> Packet" where
  "writeback_of tag blkSize line =
     dataDynamic (Packet_blk (Request_new tag blkSize 0 0) WritebackDirty blkSize) line"

text \<open>
  \<open>ports_only st st1\<close>: the state \<open>st1\<close> is \<open>st\<close> up to the CPU-side
  ports, whose number is the same, and to what was sent, which has grown by
  messages to the CPU side only.
\<close>

fun is_request_msg :: "Msg \<Rightarrow> bool" where
  "is_request_msg (SendTimingReq pkt ok) = True"
| "is_request_msg m = False"

definition ports_only :: "('s, 'm) Cache_scheme \<Rightarrow> ('s, 'm) Cache_scheme \<Rightarrow> bool" where
  "ports_only st st1 =
     (st1 = st\<lparr>cpuPorts := cpuPorts st1, sent := sent st1\<rparr> \<and>
      length (cpuPorts st1) = length (cpuPorts st) \<and>
      (\<exists>ms. sent st1 = sent st @ ms \<and> list_all (\<lambda>m. \<not> is_request_msg m) ms))"

text \<open>\<open>store_only st st1\<close>: the state \<open>st1\<close> is \<open>st\<close> up to the store.\<close>

definition store_only :: "('s, 'm) Cache_scheme \<Rightarrow> ('s, 'm) Cache_scheme \<Rightarrow> bool" where
  "store_only st st1 = (st1 = st\<lparr>cacheStore := cacheStore st1\<rparr>)"

text \<open>
  \<open>insert_frame st st1\<close>: the state \<open>st1\<close> is \<open>st\<close> up to the store, the
  memory-side port and what was sent.
\<close>

definition insert_frame :: "('s, 'm) Cache_scheme \<Rightarrow> ('s, 'm) Cache_scheme \<Rightarrow> bool" where
  "insert_frame st st1 =
     (st1 = st\<lparr>cacheStore := cacheStore st1, memPort := memPort st1, sent := sent st1\<rparr>)"

text \<open>
  \<open>within_request_block p blkSize\<close>: the address of the packet lies in the block of
  the address of its request, as it does for a packet built on a request
  (\<open>Packet_new\<close>, \<open>Packet_blk\<close>).
\<close>

definition within_request_block :: "Packet \<Rightarrow> nat \<Rightarrow> bool" where
  "within_request_block p blkSize = (getBlockAddr p blkSize = blockAlign (paddr (req p)) blkSize)"

text \<open>
  What the asserts on the way of a response ask of the state and of the packet:
  the controller is blocked on a port of the cache that holds no parked packet,
  the packet is a block-aligned response whose block is not resident, the
  memory-side port holds no parked packet, and a parked original packet is a
  read or a write to the block of the response. For FullyAssocCache, moreover,
  the optimized algorithm is off, and when the store is full the draws of the
  host select a victim.
\<close>

definition port_awaits :: "('s, 'm) Cache_scheme \<Rightarrow> Packet \<Rightarrow> bool" where
  "port_awaits st pkt =
     (blocked st \<and> 0 \<le> waitingPortId st \<and> waitingPortId st < int (length (cpuPorts st)) \<and>
      blockedPacket (cpuPorts st ! nat (waitingPortId st)) = None \<and>
      memBlockedPacket (memPort st) = None \<and>
      isResponse pkt \<and> getAddr pkt = getBlockAddr pkt (blockSize st) \<and>
      (case originalPacket st of
         None \<Rightarrow> True
       | Some orig \<Rightarrow>
           getBlockAddr orig (blockSize st) = getBlockAddr pkt (blockSize st) \<and>
           (isRead orig \<or> isWrite orig)))"

definition DirectCache_awaits :: "DStore Cache \<Rightarrow> Packet \<Rightarrow> bool" where
  "DirectCache_awaits st pkt =
     (port_awaits st pkt \<and> capacity st \<noteq> 0 \<and> length (cacheStore st) = capacity st \<and>
      (snd (cacheStore st ! (getBlockAddr pkt (blockSize st) mod capacity st)) = None \<or>
       fst (cacheStore st ! (getBlockAddr pkt (blockSize st) mod capacity st)) \<noteq>
         getBlockAddr pkt (blockSize st)))"

definition FullyAssocCache_awaits :: "FullyAssocCache \<Rightarrow> Packet \<Rightarrow> Host \<Rightarrow> bool" where
  "FullyAssocCache_awaits st pkt h =
     (port_awaits st pkt \<and> \<not> optimizedAlgorithm st \<and>
      map_of (cacheStore st) (getAddr pkt) = None \<and>
      (length (cacheStore st) < capacity st \<or> \<not> isl (select_victim h (cacheStore st))))"

text \<open>
  A sequence of accesses to the store of DirectCache: functional accesses
  (accessFunctional, as the timing and the functional path run it) and
  installations of a block (insert). \<open>leaves_block b\<close> holds of an access that
  is not to the block \<open>b\<close> and does not replace the line in the slot of \<open>b\<close>.
\<close>

datatype Access = Functional Packet | Install Packet Host

fun DirectCache_apply :: "DStore Cache \<Rightarrow> Access list \<Rightarrow> error + DStore Cache" where
  "DirectCache_apply st [] = Inr st"
| "DirectCache_apply st (Functional p # as) =
     (case DirectCache_accessFunctional st p of
        Inl e \<Rightarrow> Inl e
      | Inr (hit, st1, p1) \<Rightarrow> DirectCache_apply st1 as)"
| "DirectCache_apply st (Install p h # as) =
     (case DirectCache_insert st p h of
        Inl e \<Rightarrow> Inl e
      | Inr st1 \<Rightarrow> DirectCache_apply st1 as)"

fun leaves_block :: "Addr \<Rightarrow> nat \<Rightarrow> nat \<Rightarrow> Access \<Rightarrow> bool" where
  "leaves_block b blkSize cap (Functional p) = (getBlockAddr p blkSize \<noteq> b)"
| "leaves_block b blkSize cap (Install p h) = (getBlockAddr p blkSize mod cap \<noteq> b mod cap)"

subsection \<open>Invariants\<close>

text \<open>
  \<open>parked_request\<close>: the memory-side port holds a refused packet that wants a
  response (the forwarded or upgraded request of the outstanding miss, as opposed
  to a writeback).

  \<open>controller_inv\<close> is the invariant of the controller and of the host's books:
  blocked holds exactly when a port is waiting; an idle controller has no
  original packet, no scheduled access, no request downstream; a blocked
  controller waits on one of its ports, which holds no parked response; at most
  one access is scheduled, and then nothing is downstream yet; and the two
  counters add up to the number of access events that ran.
\<close>

definition parked_request :: "('s, 'm) Cache_scheme \<Rightarrow> bool" where
  "parked_request st =
     (case memBlockedPacket (memPort st) of None \<Rightarrow> False | Some p \<Rightarrow> needsResponse p)"

definition controller_inv :: "('s, 'm) Cache_scheme \<Rightarrow> bool" where
  "controller_inv st =
     ((blocked st \<longleftrightarrow> waitingPortId st \<noteq> -1) \<and>
      (\<not> blocked st \<longrightarrow>
         originalPacket st = None \<and> accessEvents st = [] \<and> outstanding st = None \<and>
         \<not> parked_request st) \<and>
      (blocked st \<longrightarrow>
         0 \<le> waitingPortId st \<and> waitingPortId st < int (length (cpuPorts st)) \<and>
         blockedPacket (cpuPorts st ! nat (waitingPortId st)) = None) \<and>
      (accessEvents st \<noteq> [] \<longrightarrow>
         originalPacket st = None \<and> outstanding st = None \<and> length (accessEvents st) = 1 \<and>
         \<not> parked_request st) \<and>
      (outstanding st \<noteq> None \<longrightarrow> \<not> parked_request st) \<and>
      hits st + misses st = timingAccesses st)"

text \<open>
  The resident block addresses of the two stores, and the invariants of the
  stores: in DirectCache there are capacity slots and a line sits in the slot
  its tag indexes; in FullyAssocCache the keys are distinct and at most
  capacity many. In both, every tag is a block address.
\<close>

definition DirectCache_resident :: "DStore Cache \<Rightarrow> Addr list" where
  "DirectCache_resident st = map fst (filter (\<lambda>e. snd e \<noteq> None) (cacheStore st))"

definition FullyAssocCache_resident :: "FullyAssocCache \<Rightarrow> Addr list" where
  "FullyAssocCache_resident st = map fst (cacheStore st)"

definition DirectCache_store_inv :: "DStore Cache \<Rightarrow> bool" where
  "DirectCache_store_inv st =
     (length (cacheStore st) = capacity st \<and>
      (\<forall>i < length (cacheStore st).
         snd (cacheStore st ! i) \<noteq> None \<longrightarrow>
           fst (cacheStore st ! i) mod capacity st = i \<and>
           blockAlign (fst (cacheStore st ! i)) (blockSize st) = fst (cacheStore st ! i)))"

definition FullyAssocCache_store_inv :: "FullyAssocCache \<Rightarrow> bool" where
  "FullyAssocCache_store_inv st =
     (distinct (map fst (cacheStore st)) \<and> length (cacheStore st) \<le> capacity st \<and>
      (\<forall>e \<in> set (cacheStore st). blockAlign (fst e) (blockSize st) = fst e))"

text \<open>The panic of the CPU-side port, for the statement that it is never reached.\<close>

definition cpu_send_panic :: error where
  "cpu_send_panic = Panic ''CPUSidePort::sendPacket'' ''Should never try to send if blocked!''"

subsection \<open>Concrete inputs\<close>

text \<open>
  A host that accepts what the cache sends during the call, a block-sized
  response for a block, and the requests of an initiator.
\<close>

definition host_accepts :: Host where
  "host_accepts =
     \<lparr>curTick = 0, reqAccepted = True, respAccepted = True, draws = [0, 0],
      bucket_count = 1, bucket_of = (\<lambda>a. 0)\<rparr>"

definition block_response :: "Addr \<Rightarrow> nat \<Rightarrow> Packet" where
  "block_response a blkSize =
     makeResponse (allocate (Packet_blk (Request_new a blkSize 0 0) ReadReq blkSize))"

definition read_request :: "Addr \<Rightarrow> nat \<Rightarrow> Packet" where
  "read_request a sz = allocate (Packet_new (Request_new a sz 0 0) ReadReq)"

definition write_request :: "Addr \<Rightarrow> byte list \<Rightarrow> Packet" where
  "write_request a v = dataDynamic (Packet_new (Request_new a (length v) 0 0) WriteReq) v"

text \<open>
  A cache of two 64-byte blocks after the miss of a 2-byte read at 0x42 on port
  0 (its upgrade read was accepted downstream), and the response to the upgrade
  read.
\<close>

definition upgrade_read :: Packet where
  "upgrade_read = allocate (Packet_blk (Request_new 0x42 2 0 0) ReadReq 64)"

definition upgrade_response :: Packet where
  "upgrade_response = response_to upgrade_read (replicate 64 7)"

definition DirectCache_after_miss :: "DStore Cache" where
  "DirectCache_after_miss =
     (DirectCache_new 64 2 1)\<lparr>blocked := True, waitingPortId := 0, misses := 1,
        originalPacket := Some (read_request 0x42 2),
        sent := [SendTimingReq upgrade_read True]\<rparr>"

definition FullyAssocCache_after_miss :: FullyAssocCache where
  "FullyAssocCache_after_miss =
     (FullyAssocCache_new 64 2 1 False)\<lparr>blocked := True, waitingPortId := 0, misses := 1,
        originalPacket := Some (read_request 0x42 2),
        sent := [SendTimingReq upgrade_read True]\<rparr>"

text \<open>A cache of two 64-byte blocks that holds the block 0x40, all zeroes.\<close>

definition DirectCache_holding_0x40 :: "DStore Cache" where
  "DirectCache_holding_0x40 =
     (DirectCache_new 64 2 1)\<lparr>cacheStore := [(0x40, Some (replicate 64 0)), (0, None)]\<rparr>"

text \<open>A fully-associative cache of one 64-byte block that holds the block 0x40.\<close>

definition FullyAssocCache_holding_0x40 :: FullyAssocCache where
  "FullyAssocCache_holding_0x40 =
     (FullyAssocCache_new 64 1 1 False)\<lparr>cacheStore := [(0x40, replicate 64 0)]\<rparr>"

text \<open>
  The host refuses the request the cache sends downstream during the call, and
  accepts the response it sends upstream.
\<close>

definition host_refuses_request :: Host where
  "host_refuses_request = host_accepts\<lparr>reqAccepted := False\<rparr>"

text \<open>
  Three 4-byte accesses of one initiator to the blocks 0x00, 0x80 and 0x100 of
  a cache of two 64-byte blocks. The memory side accepts the two upgrade reads
  and answers them; while the second response is handled it refuses the
  writeback of block 0x00, which the port parks. It has not yet invited the
  port to retry when the third access, accepted by the unblocked cache, runs.
\<close>

definition parked_writeback_run :: "Event list" where
  "parked_writeback_run =
     [RecvTimingReq 0 (write_request 0x00 [1, 2, 3, 4]),
      AccessEvent host_accepts,
      RecvTimingResp (replicate 64 0) host_accepts,
      RecvTimingReq 0 (write_request 0x80 [5, 6, 7, 8]),
      AccessEvent host_accepts,
      RecvTimingResp (replicate 64 0) host_refuses_request,
      RecvTimingReq 0 (read_request 0x100 4)]"

section \<open>Properties\<close>

subsection \<open>What the port operations leave alone\<close>

lemma ports_only_refl: "ports_only st st"
  by (simp add: ports_only_def)

lemma ports_only_trans:
  assumes "ports_only a b" and "ports_only b c"
  shows "ports_only a c"
proof -
  from assms have e1: "b = a\<lparr>cpuPorts := cpuPorts b, sent := sent b\<rparr>"
    and e2: "c = b\<lparr>cpuPorts := cpuPorts c, sent := sent c\<rparr>"
    by (simp_all add: ports_only_def)
  have "c = a\<lparr>cpuPorts := cpuPorts c, sent := sent c\<rparr>"
    by (subst e2, subst e1) simp
  moreover from assms have "length (cpuPorts c) = length (cpuPorts a)"
    by (simp add: ports_only_def)
  moreover have "\<exists>ms. sent c = sent a @ ms \<and> list_all (\<lambda>m. \<not> is_request_msg m) ms"
  proof -
    from assms obtain ms1 ms2 where "sent b = sent a @ ms1" "sent c = sent b @ ms2"
      and "list_all (\<lambda>m. \<not> is_request_msg m) ms1" "list_all (\<lambda>m. \<not> is_request_msg m) ms2"
      by (auto simp add: ports_only_def)
    then have "sent c = sent a @ (ms1 @ ms2) \<and> list_all (\<lambda>m. \<not> is_request_msg m) (ms1 @ ms2)"
      by simp
    then show ?thesis by blast
  qed
  ultimately show ?thesis by (simp add: ports_only_def)
qed

lemma trySendRetry_ports_only: "ports_only st (trySendRetry st i)"
  by (simp add: ports_only_def trySendRetry_def Let_def)

lemma foldl_trySendRetry_ports_only: "ports_only st (foldl trySendRetry st is)"
proof (induction "is" arbitrary: st)
  case Nil
  show ?case by (simp add: ports_only_refl)
next
  case (Cons i "is")
  show ?case
    using ports_only_trans[OF trySendRetry_ports_only[of st i] Cons.IH[of "trySendRetry st i"]]
    by simp
qed

lemma CPUSidePort_sendPacket_ports_only:
  assumes "CPUSidePort_sendPacket st port pkt h = Inr st1"
  shows "ports_only st st1"
  using assms
  by (auto simp add: CPUSidePort_sendPacket_def ports_only_def Let_def split: if_splits)

lemma sendResponse_ports_only:
  assumes "sendResponse st pkt h = Inr st1"
  shows "blocked st \<and> ports_only (st\<lparr>blocked := False, waitingPortId := -1\<rparr>) st1"
proof -
  from assms have b: "blocked st" by (auto simp add: sendResponse_def split: if_splits)
  from assms b obtain st2 where
    s2: "CPUSidePort_sendPacket (st\<lparr>blocked := False, waitingPortId := -1\<rparr>) (waitingPortId st) pkt h = Inr st2"
    and s1: "st1 = foldl trySendRetry st2 [0..<length (cpuPorts st2)]"
    by (auto simp add: sendResponse_def Let_def split: sum.splits)
  show ?thesis
    using b ports_only_trans[OF CPUSidePort_sendPacket_ports_only[OF s2]
        foldl_trySendRetry_ports_only[of st2 "[0..<length (cpuPorts st2)]"]] s1
    by simp
qed

lemma ports_only_fields:
  assumes "ports_only st st1"
  shows "blockSize st1 = blockSize st" "capacity st1 = capacity st" "memPort st1 = memPort st"
    "blocked st1 = blocked st" "originalPacket st1 = originalPacket st"
    "waitingPortId st1 = waitingPortId st" "missTime st1 = missTime st"
    "cacheStore st1 = cacheStore st" "hits st1 = hits st" "misses st1 = misses st"
    "missLatency st1 = missLatency st" "accessEvents st1 = accessEvents st"
    "outstanding st1 = outstanding st" "timingAccesses st1 = timingAccesses st"
    "Cache.more st1 = Cache.more st" "length (cpuPorts st1) = length (cpuPorts st)"
proof -
  from assms have e: "st1 = st\<lparr>cpuPorts := cpuPorts st1, sent := sent st1\<rparr>"
    by (simp add: ports_only_def)
  show "blockSize st1 = blockSize st" by (subst e) simp
  show "capacity st1 = capacity st" by (subst e) simp
  show "memPort st1 = memPort st" by (subst e) simp
  show "blocked st1 = blocked st" by (subst e) simp
  show "originalPacket st1 = originalPacket st" by (subst e) simp
  show "waitingPortId st1 = waitingPortId st" by (subst e) simp
  show "missTime st1 = missTime st" by (subst e) simp
  show "cacheStore st1 = cacheStore st" by (subst e) simp
  show "hits st1 = hits st" by (subst e) simp
  show "misses st1 = misses st" by (subst e) simp
  show "missLatency st1 = missLatency st" by (subst e) simp
  show "accessEvents st1 = accessEvents st" by (subst e) simp
  show "outstanding st1 = outstanding st" by (subst e) simp
  show "timingAccesses st1 = timingAccesses st" by (subst e) simp
  show "Cache.more st1 = Cache.more st" by (subst e) simp
  show "length (cpuPorts st1) = length (cpuPorts st)" using assms by (simp add: ports_only_def)
qed

lemma MemSidePort_sendPacket_Inr:
  assumes "MemSidePort_sendPacket st pkt h = Inr st1"
  shows "memBlockedPacket (memPort st) = None"
    and "st1 = st\<lparr>memPort := \<lparr>memBlockedPacket = (if reqAccepted h then None else Some pkt)\<rparr>,
                  sent := sent st @ [SendTimingReq pkt (reqAccepted h)]\<rparr>"
  using assms
  by (auto simp add: MemSidePort_sendPacket_def split: if_splits)

subsection \<open>Block addresses; what accessFunctional, accessTiming and insert return\<close>

lemma blockAlign_mod: "blockAlign a b mod b = 0"
  by (simp add: blockAlign_def mod_eq_0_iff_dvd)

lemma blockAlign_idem: "blockAlign (blockAlign a b) b = blockAlign a b"
  using blockAlign_mod[of a b] by (simp add: blockAlign_def[of "blockAlign a b"])

lemma blockAlign_le: "blockAlign a b \<le> a"
  by (simp add: blockAlign_def)

lemma store_only_fields:
  assumes "store_only st st1"
  shows "blockSize st1 = blockSize st" "capacity st1 = capacity st" "memPort st1 = memPort st"
    "blocked st1 = blocked st" "originalPacket st1 = originalPacket st"
    "waitingPortId st1 = waitingPortId st" "missTime st1 = missTime st"
    "cpuPorts st1 = cpuPorts st" "hits st1 = hits st" "misses st1 = misses st"
    "missLatency st1 = missLatency st" "accessEvents st1 = accessEvents st"
    "outstanding st1 = outstanding st" "timingAccesses st1 = timingAccesses st"
    "Cache.more st1 = Cache.more st" "sent st1 = sent st"
proof -
  from assms have e: "st1 = st\<lparr>cacheStore := cacheStore st1\<rparr>"
    by (simp add: store_only_def)
  show "blockSize st1 = blockSize st" by (subst e) simp
  show "capacity st1 = capacity st" by (subst e) simp
  show "memPort st1 = memPort st" by (subst e) simp
  show "blocked st1 = blocked st" by (subst e) simp
  show "originalPacket st1 = originalPacket st" by (subst e) simp
  show "waitingPortId st1 = waitingPortId st" by (subst e) simp
  show "missTime st1 = missTime st" by (subst e) simp
  show "cpuPorts st1 = cpuPorts st" by (subst e) simp
  show "hits st1 = hits st" by (subst e) simp
  show "misses st1 = misses st" by (subst e) simp
  show "missLatency st1 = missLatency st" by (subst e) simp
  show "accessEvents st1 = accessEvents st" by (subst e) simp
  show "outstanding st1 = outstanding st" by (subst e) simp
  show "timingAccesses st1 = timingAccesses st" by (subst e) simp
  show "Cache.more st1 = Cache.more st" by (subst e) simp
  show "sent st1 = sent st" by (subst e) simp
qed

lemma DirectCache_accessFunctional_Inr:
  assumes "DirectCache_accessFunctional st pkt = Inr (hit, st1, pkt1)"
  shows "store_only st st1"
    and "map fst (cacheStore st1) = map fst (cacheStore st)"
    and "map (\<lambda>e. snd e = None) (cacheStore st1) = map (\<lambda>e. snd e = None) (cacheStore st)"
    and "\<not> hit \<Longrightarrow> st1 = st \<and> pkt1 = pkt"
    and "capacity st \<noteq> 0"
  using assms
  by (auto simp add: DirectCache_accessFunctional_def Let_def store_only_def map_update
      list_update_same_conv split: if_splits option.splits)

lemma accessTiming_cases:
  assumes "accessTiming accF st pkt0 h = Inr st'"
  obtains (hit) st1 pkt where "accF st pkt0 = Inr (True, st1, pkt)"
      and "sendResponse (st1\<lparr>hits := hits st1 + 1\<rparr>) (makeResponse pkt) h = Inr st'"
  | (forward) st1 pkt where "accF st pkt0 = Inr (False, st1, pkt)"
      and "getAddr pkt = getBlockAddr pkt (blockSize st1)" and "getSize pkt = blockSize st1"
      and "MemSidePort_sendPacket (st1\<lparr>misses := misses st1 + 1, missTime := curTick h\<rparr>) pkt h = Inr st'"
  | (upgrade) st1 pkt where "accF st pkt0 = Inr (False, st1, pkt)"
      and "\<not> (getAddr pkt = getBlockAddr pkt (blockSize st1) \<and> getSize pkt = blockSize st1)"
      and "getAddr pkt - getBlockAddr pkt (blockSize st1) + getSize pkt \<le> blockSize st1"
      and "needsResponse pkt" and "isWrite pkt \<or> isRead pkt"
      and "MemSidePort_sendPacket
             (st1\<lparr>misses := misses st1 + 1, missTime := curTick h, originalPacket := Some pkt\<rparr>)
             (allocate (Packet_blk (req pkt) ReadReq (blockSize st1))) h = Inr st'"
proof -
  from assms obtain hit st1 pkt where a: "accF st pkt0 = Inr (hit, st1, pkt)"
    by (auto simp add: accessTiming_def split: sum.splits)
  show thesis
  proof (cases hit)
    case True
    with a assms have "sendResponse (st1\<lparr>hits := hits st1 + 1\<rparr>) (makeResponse pkt) h = Inr st'"
      by (simp add: accessTiming_def)
    with a True show thesis using hit by simp
  next
    case False
    show thesis
    proof (cases "getAddr pkt = getBlockAddr pkt (blockSize st1) \<and> getSize pkt = blockSize st1")
      case True
      with a False assms
      have "MemSidePort_sendPacket (st1\<lparr>misses := misses st1 + 1, missTime := curTick h\<rparr>) pkt h = Inr st'"
        by (simp add: accessTiming_def Let_def)
      with a False True show thesis using forward by simp
    next
      case nf: False
      with a False assms
      have "getAddr pkt - getBlockAddr pkt (blockSize st1) + getSize pkt \<le> blockSize st1"
        and "needsResponse pkt" and "isWrite pkt \<or> isRead pkt"
        and "MemSidePort_sendPacket
             (st1\<lparr>misses := misses st1 + 1, missTime := curTick h, originalPacket := Some pkt\<rparr>)
             (allocate (Packet_blk (req pkt) ReadReq (blockSize st1))) h = Inr st'"
        by (auto simp add: accessTiming_def Let_def split: if_splits)
      with a False nf show thesis using upgrade by simp
    qed
  qed
qed

lemma Packet_blk_aligned: "getBlockAddr (allocate (Packet_blk r c b)) b = getAddr (allocate (Packet_blk r c b))"
  by (simp add: getBlockAddr_def allocate_def Packet_blk_def blockAlign_idem)

lemma insert_frame_fields:
  assumes "insert_frame st st1"
  shows "blockSize st1 = blockSize st" "capacity st1 = capacity st"
    "blocked st1 = blocked st" "originalPacket st1 = originalPacket st"
    "waitingPortId st1 = waitingPortId st" "missTime st1 = missTime st"
    "cpuPorts st1 = cpuPorts st" "hits st1 = hits st" "misses st1 = misses st"
    "missLatency st1 = missLatency st" "accessEvents st1 = accessEvents st"
    "outstanding st1 = outstanding st" "timingAccesses st1 = timingAccesses st"
    "Cache.more st1 = Cache.more st"
proof -
  from assms have e: "st1 = st\<lparr>cacheStore := cacheStore st1, memPort := memPort st1, sent := sent st1\<rparr>"
    by (simp add: insert_frame_def)
  show "blockSize st1 = blockSize st" by (subst e) simp
  show "capacity st1 = capacity st" by (subst e) simp
  show "blocked st1 = blocked st" by (subst e) simp
  show "originalPacket st1 = originalPacket st" by (subst e) simp
  show "waitingPortId st1 = waitingPortId st" by (subst e) simp
  show "missTime st1 = missTime st" by (subst e) simp
  show "cpuPorts st1 = cpuPorts st" by (subst e) simp
  show "hits st1 = hits st" by (subst e) simp
  show "misses st1 = misses st" by (subst e) simp
  show "missLatency st1 = missLatency st" by (subst e) simp
  show "accessEvents st1 = accessEvents st" by (subst e) simp
  show "outstanding st1 = outstanding st" by (subst e) simp
  show "timingAccesses st1 = timingAccesses st" by (subst e) simp
  show "Cache.more st1 = Cache.more st" by (subst e) simp
qed

lemma DirectCache_insert_Inr:
  assumes "DirectCache_insert st pkt h = Inr st1"
    and "idx = getBlockAddr pkt (blockSize st) mod capacity st"
  shows "capacity st \<noteq> 0"
    and "getAddr pkt = getBlockAddr pkt (blockSize st)"
    and "idx < length (cacheStore st)"
    and "isResponse pkt"
    and "snd (cacheStore st ! idx) = None \<or> fst (cacheStore st ! idx) \<noteq> getBlockAddr pkt (blockSize st)"
    and "cacheStore st1 = (cacheStore st)
           [idx := (getBlockAddr pkt (blockSize st),
                    Some (writeDataToBlock pkt (replicate (blockSize st) 0) (blockSize st)))]"
    and "insert_frame st st1"
    and "snd (cacheStore st ! idx) = None \<Longrightarrow> sent st1 = sent st \<and> memPort st1 = memPort st"
    and "snd (cacheStore st ! idx) = Some victim \<Longrightarrow>
           memBlockedPacket (memPort st) = None \<and>
           sent st1 = sent st @
             [SendTimingReq (writeback_of (fst (cacheStore st ! idx)) (blockSize st) victim)
                (reqAccepted h)] \<and>
           memPort st1 = \<lparr>memBlockedPacket =
             (if reqAccepted h then None
              else Some (writeback_of (fst (cacheStore st ! idx)) (blockSize st) victim))\<rparr>"
  using assms
  by (auto simp add: DirectCache_insert_def Let_def insert_frame_def writeback_of_def
      MemSidePort_sendPacket_def split: if_splits option.splits sum.splits)

lemma within_request_block_new: "within_request_block (Packet_new r c) b"
  by (simp add: within_request_block_def Packet_new_def getBlockAddr_def)

lemma within_request_block_blk: "within_request_block (Packet_blk r c b) b"
  by (simp add: within_request_block_def Packet_blk_def getBlockAddr_def blockAlign_idem)

lemma DirectCache_replay_hits:
  assumes ins: "DirectCache_insert st pkt h = Inr st1"
    and same: "getBlockAddr orig (blockSize st) = getBlockAddr pkt (blockSize st)"
    and rw: "isRead orig \<or> isWrite orig"
  shows "\<exists>st3 orig1. DirectCache_accessFunctional (st1\<lparr>missLatency := ml\<rparr>) orig =
           Inr (True, st3, orig1) \<and> store_only (st1\<lparr>missLatency := ml\<rparr>) st3"
proof -
  define idx where "idx = getBlockAddr pkt (blockSize st) mod capacity st"
  note f = DirectCache_insert_Inr[OF ins idx_def]
  note g = insert_frame_fields[OF f(7)]
  have slot: "cacheStore st1 ! idx =
      (getBlockAddr pkt (blockSize st),
       Some (writeDataToBlock pkt (replicate (blockSize st) 0) (blockSize st)))"
    using f(3) f(6) by simp
  have len: "idx < length (cacheStore st1)" using f(3) f(6) by simp
  show ?thesis
    using rw slot len g(1) g(2) same f(1) idx_def
    by (auto simp add: DirectCache_accessFunctional_def Let_def store_only_def)
qed

lemma DirectCache_replay_no_miss:
  assumes ins: "DirectCache_insert st pkt h = Inr st1"
    and same: "getBlockAddr orig (blockSize st) = getBlockAddr pkt (blockSize st)"
  shows "DirectCache_accessFunctional (st1\<lparr>missLatency := ml\<rparr>) orig \<noteq> Inr (False, st3, orig1)"
proof -
  define idx where "idx = getBlockAddr pkt (blockSize st) mod capacity st"
  note f = DirectCache_insert_Inr[OF ins idx_def]
  note g = insert_frame_fields[OF f(7)]
  have slot: "cacheStore st1 ! idx =
      (getBlockAddr pkt (blockSize st),
       Some (writeDataToBlock pkt (replicate (blockSize st) 0) (blockSize st)))"
    using f(3) f(6) by simp
  have len: "idx < length (cacheStore st1)" using f(3) f(6) by simp
  show ?thesis
    using slot len g(1) g(2) same f(1) idx_def
    by (auto simp add: DirectCache_accessFunctional_def Let_def)
qed

lemma sendResponse_total:
  assumes "blocked st" and "0 \<le> waitingPortId st"
    and "waitingPortId st < int (length (cpuPorts st))"
    and "blockedPacket (cpuPorts st ! nat (waitingPortId st)) = None"
  shows "\<exists>st1. sendResponse st pkt h = Inr st1"
  using assms by (simp add: sendResponse_def CPUSidePort_sendPacket_def Let_def)

lemma DirectCache_insert_total:
  assumes "capacity st \<noteq> 0" and "length (cacheStore st) = capacity st"
    and "getAddr pkt = getBlockAddr pkt (blockSize st)"
    and "snd (cacheStore st ! (getBlockAddr pkt (blockSize st) mod capacity st)) = None \<or>
         fst (cacheStore st ! (getBlockAddr pkt (blockSize st) mod capacity st)) \<noteq>
           getBlockAddr pkt (blockSize st)"
    and "isResponse pkt"
    and "memBlockedPacket (memPort st) = None"
  shows "\<exists>st1. DirectCache_insert st pkt h = Inr st1"
proof -
  have "getBlockAddr pkt (blockSize st) mod capacity st < length (cacheStore st)"
    using assms(1,2) by simp
  then have "\<not> length (cacheStore st) \<le> getBlockAddr pkt (blockSize st) mod capacity st"
    by simp
  with assms show ?thesis
    by (auto simp add: DirectCache_insert_def Let_def MemSidePort_sendPacket_def
        split: option.splits)
qed

lemma handleResponse_never_false: "handleResponse ins accF st pkt h \<noteq> Inr (False, st1)"
  by (auto simp add: handleResponse_def Let_def split: sum.splits option.splits if_splits)

subsection \<open>The hash table, the random selection and FullyAssocCache\<close>

lemma update_length_present:
  "k \<in> fst ` set al \<Longrightarrow> length (AList.update k v al) = length al"
  by (induction al) auto

lemma update_length_absent:
  "k \<notin> fst ` set al \<Longrightarrow> length (AList.update k v al) = Suc (length al)"
  by (induction al) auto

lemma delete_length_present:
  assumes "k \<in> fst ` set al"
  shows "length (AList.delete k al) < length al"
proof -
  from assms obtain e where "e \<in> set al" "fst e = k" by auto
  then have "length (filter (\<lambda>p. fst p \<noteq> k) al) < length al"
    by (intro length_filter_less[of e]) auto
  moreover have "AList.delete k al = filter (\<lambda>p. fst p \<noteq> k) al"
    by (induction al) auto
  ultimately show ?thesis by simp
qed

lemma pick_bucket_Some:
  "pick_bucket h m ds = Some (b, ds') \<Longrightarrow> length (bucket h m b) \<noteq> 0"
  by (induction ds) (auto simp add: Let_def split: if_splits)

lemma pick_bucket_hits:
  assumes "d \<in> set ds"
    and "length (bucket h m (random_mt_random 0 (bucket_count h - 1) d)) \<noteq> 0"
  shows "\<exists>b ds'. pick_bucket h m ds = Some (b, ds') \<and> length ds' < length ds"
  using assms
proof (induction ds)
  case Nil
  then show ?case by simp
next
  case (Cons a ds)
  show ?case
  proof (cases "length (bucket h m (random_mt_random 0 (bucket_count h - 1) a)) = 0")
    case True
    with Cons.prems have "d \<in> set ds" by auto
    from Cons.IH[OF this Cons.prems(2)] True show ?thesis by (auto simp add: Let_def)
  next
    case False
    then show ?thesis by (simp add: Let_def)
  qed
qed

lemma select_victim_resident:
  assumes "select_victim h m = Inr block"
  shows "block \<in> set m"
proof -
  from assms obtain b ds d where p: "pick_bucket h m (draws h) = Some (b, d # ds)"
    and blk: "block = bucket h m b ! random_mt_random 0 (length (bucket h m b) - 1) d"
    by (auto simp add: select_victim_def split: if_splits option.splits list.splits)
  from pick_bucket_Some[OF p] have ne: "0 < length (bucket h m b)" by simp
  then have "random_mt_random 0 (length (bucket h m b) - 1) d < length (bucket h m b)"
    by (simp add: random_mt_random_def)
  then have "block \<in> set (bucket h m b)" using blk by simp
  then show ?thesis by (simp add: bucket_def)
qed

lemma update_keys_present:
  "map_of al k = Some l \<Longrightarrow> map fst (AList.update k v al) = map fst al"
  by (auto simp add: update_keys dest: map_of_SomeD intro: rev_image_eqI)

lemma FullyAssocCache_accessFunctional_Inr:
  assumes "FullyAssocCache_accessFunctional st pkt = Inr (hit, st1, pkt1)"
  shows "store_only st st1"
    and "map fst (cacheStore st1) = map fst (cacheStore st)"
    and "\<not> hit \<Longrightarrow> st1 = st \<and> pkt1 = pkt"
proof -
  note k = update_keys_present
  show "store_only st st1" using assms
    by (auto simp add: FullyAssocCache_accessFunctional_def Let_def store_only_def
        split: if_splits option.splits)
  show "map fst (cacheStore st1) = map fst (cacheStore st)" using assms
    by (auto simp add: FullyAssocCache_accessFunctional_def Let_def k
        split: if_splits option.splits)
  show "\<not> hit \<Longrightarrow> st1 = st \<and> pkt1 = pkt" using assms
    by (auto simp add: FullyAssocCache_accessFunctional_def Let_def
        split: if_splits option.splits)
qed

lemma FullyAssocCache_insert_Inr:
  assumes "FullyAssocCache_insert st pkt h = Inr st1"
    and "line = writeDataToBlock pkt (replicate (blockSize st) 0) (blockSize st)"
  shows "\<not> optimizedAlgorithm st"
    and "getAddr pkt = getBlockAddr pkt (blockSize st)"
    and "map_of (cacheStore st) (getAddr pkt) = None"
    and "isResponse pkt"
    and "insert_frame st st1"
    and "length (cacheStore st) < capacity st \<Longrightarrow>
           cacheStore st1 = AList.update (getAddr pkt) line (cacheStore st) \<and>
           sent st1 = sent st \<and> memPort st1 = memPort st"
    and "capacity st \<le> length (cacheStore st) \<Longrightarrow>
           (\<exists>block. select_victim h (cacheStore st) = Inr block \<and>
              memBlockedPacket (memPort st) = None \<and>
              sent st1 = sent st @
                [SendTimingReq (writeback_of (fst block) (blockSize st) (snd block))
                   (reqAccepted h)] \<and>
              memPort st1 = \<lparr>memBlockedPacket =
                (if reqAccepted h then None
                 else Some (writeback_of (fst block) (blockSize st) (snd block)))\<rparr> \<and>
              cacheStore st1 =
                AList.update (getAddr pkt) line (AList.delete (fst block) (cacheStore st)))"
  using assms
  by (auto simp add: FullyAssocCache_insert_def Let_def insert_frame_def writeback_of_def
      MemSidePort_sendPacket_def split: if_splits option.splits sum.splits)

lemma frame_optimizedAlgorithm:
  fixes st :: FullyAssocCache
  shows "insert_frame st st1 \<Longrightarrow> optimizedAlgorithm st1 = optimizedAlgorithm st"
    and "store_only st st2 \<Longrightarrow> optimizedAlgorithm st2 = optimizedAlgorithm st"
    and "ports_only st st3 \<Longrightarrow> optimizedAlgorithm st3 = optimizedAlgorithm st"
proof -
  show "optimizedAlgorithm st1 = optimizedAlgorithm st" if "insert_frame st st1"
  proof -
    from that have e: "st1 = st\<lparr>cacheStore := cacheStore st1, memPort := memPort st1, sent := sent st1\<rparr>"
      by (simp add: insert_frame_def)
    show ?thesis by (subst e) simp
  qed
  show "optimizedAlgorithm st2 = optimizedAlgorithm st" if "store_only st st2"
  proof -
    from that have e: "st2 = st\<lparr>cacheStore := cacheStore st2\<rparr>"
      by (simp add: store_only_def)
    show ?thesis by (subst e) simp
  qed
  show "optimizedAlgorithm st3 = optimizedAlgorithm st" if "ports_only st st3"
  proof -
    from that have e: "st3 = st\<lparr>cpuPorts := cpuPorts st3, sent := sent st3\<rparr>"
      by (simp add: ports_only_def)
    show ?thesis by (subst e) simp
  qed
qed

subsection \<open>handleResponse completes\<close>

lemma handleResponse_total:
  assumes aw: "port_awaits st pkt"
    and ins: "ins st pkt h = Inr st1"
    and fr: "insert_frame st st1"
    and replay: "\<And>orig ml. originalPacket st = Some orig \<Longrightarrow>
        \<exists>st3 orig1. accF (st1\<lparr>missLatency := ml\<rparr>) orig = Inr (True, st3, orig1) \<and>
           store_only (st1\<lparr>missLatency := ml\<rparr>) st3"
  shows "\<exists>st2. handleResponse ins accF st pkt h = Inr (True, st2)"
proof -
  note g = insert_frame_fields[OF fr]
  let ?st2 = "st1\<lparr>missLatency := missLatency st1 @ [curTick h - missTime st1]\<rparr>"
  from aw have b: "blocked st" and p0: "0 \<le> waitingPortId st"
    and p1: "waitingPortId st < int (length (cpuPorts st))"
    and p2: "blockedPacket (cpuPorts st ! nat (waitingPortId st)) = None"
    by (simp_all add: port_awaits_def)
  show ?thesis
  proof (cases "originalPacket st")
    case None
    have "\<exists>st4. sendResponse ?st2 pkt h = Inr st4"
      by (rule sendResponse_total) (use g b p0 p1 p2 in simp_all)
    then obtain st4 where "sendResponse ?st2 pkt h = Inr st4" by blast
    with None b ins g(4) show ?thesis by (simp add: handleResponse_def Let_def)
  next
    case (Some orig)
    from replay[OF Some] obtain st3 orig1 where
      r: "accF ?st2 orig = Inr (True, st3, orig1)" and so: "store_only ?st2 st3" by blast
    note k = store_only_fields[OF so]
    have "\<exists>st4. sendResponse (st3\<lparr>originalPacket := None\<rparr>) (makeResponse orig1) h = Inr st4"
      by (rule sendResponse_total) (use g k b p0 p1 p2 in simp_all)
    then obtain st4 where
      "sendResponse (st3\<lparr>originalPacket := None\<rparr>) (makeResponse orig1) h = Inr st4" by blast
    with Some b ins g(4) r show ?thesis by (simp add: handleResponse_def Let_def)
  qed
qed

lemma DirectCache_handleResponse_total:
  assumes "DirectCache_awaits st pkt"
  shows "\<exists>st2. handleResponse DirectCache_insert DirectCache_accessFunctional st pkt h =
           Inr (True, st2)"
proof -
  from assms have aw: "port_awaits st pkt" by (simp add: DirectCache_awaits_def)
  have "\<exists>st1. DirectCache_insert st pkt h = Inr st1"
    by (rule DirectCache_insert_total) (use assms in \<open>simp_all add: DirectCache_awaits_def port_awaits_def\<close>)
  then obtain st1 where ins: "DirectCache_insert st pkt h = Inr st1" by blast
  note f = DirectCache_insert_Inr[OF ins refl]
  show ?thesis
  proof (rule handleResponse_total[where ins = DirectCache_insert
        and accF = DirectCache_accessFunctional, OF aw ins f(7)])
    fix orig ml
    assume o: "originalPacket st = Some orig"
    with aw have "getBlockAddr orig (blockSize st) = getBlockAddr pkt (blockSize st)"
      and "isRead orig \<or> isWrite orig"
      by (simp_all add: port_awaits_def)
    from DirectCache_replay_hits[OF ins this]
    show "\<exists>st3 orig1. DirectCache_accessFunctional (st1\<lparr>missLatency := ml\<rparr>) orig =
            Inr (True, st3, orig1) \<and> store_only (st1\<lparr>missLatency := ml\<rparr>) st3" .
  qed
qed

lemma FullyAssocCache_insert_total:
  assumes "\<not> optimizedAlgorithm st"
    and "getAddr pkt = getBlockAddr pkt (blockSize st)"
    and "map_of (cacheStore st) (getAddr pkt) = None"
    and "isResponse pkt"
    and "memBlockedPacket (memPort st) = None"
    and "length (cacheStore st) < capacity st \<or>
         (\<exists>block. select_victim h (cacheStore st) = Inr block)"
  shows "\<exists>st1. FullyAssocCache_insert st pkt h = Inr st1"
  using assms
  by (auto simp add: FullyAssocCache_insert_def Let_def MemSidePort_sendPacket_def)

lemma FullyAssocCache_replay_hits:
  assumes ins: "FullyAssocCache_insert st pkt h = Inr st1"
    and same: "getBlockAddr orig (blockSize st) = getBlockAddr pkt (blockSize st)"
    and rw: "isRead orig \<or> isWrite orig"
  shows "\<exists>st3 orig1. FullyAssocCache_accessFunctional (st1\<lparr>missLatency := ml\<rparr>) orig =
           Inr (True, st3, orig1) \<and> store_only (st1\<lparr>missLatency := ml\<rparr>) st3"
proof -
  note f = FullyAssocCache_insert_Inr[OF ins refl]
  note g = insert_frame_fields[OF f(5)]
  have opt: "\<not> optimizedAlgorithm st1"
    using f(1) frame_optimizedAlgorithm(1)[OF f(5)] by simp
  have "\<exists>l. map_of (cacheStore st1) (getAddr pkt) = Some l"
  proof (cases "length (cacheStore st) < capacity st")
    case True
    with f(6) show ?thesis by (simp add: update_conv')
  next
    case False
    then have "capacity st \<le> length (cacheStore st)" by simp
    from f(7)[OF this] show ?thesis by (auto simp add: update_conv')
  qed
  then obtain l where l: "map_of (cacheStore st1) (getAddr pkt) = Some l" by blast
  show ?thesis
    using rw l opt g(1) same f(2)
    by (auto simp add: FullyAssocCache_accessFunctional_def Let_def store_only_def)
qed

lemma FullyAssocCache_handleResponse_total:
  assumes "FullyAssocCache_awaits st pkt h"
  shows "\<exists>st2. handleResponse FullyAssocCache_insert FullyAssocCache_accessFunctional st pkt h =
           Inr (True, st2)"
proof -
  from assms have aw: "port_awaits st pkt" by (simp add: FullyAssocCache_awaits_def)
  from assms have "\<not> optimizedAlgorithm st"
    and "getAddr pkt = getBlockAddr pkt (blockSize st)"
    and "map_of (cacheStore st) (getAddr pkt) = None"
    and "isResponse pkt"
    and "memBlockedPacket (memPort st) = None"
    and "length (cacheStore st) < capacity st \<or>
         (\<exists>block. select_victim h (cacheStore st) = Inr block)"
    unfolding FullyAssocCache_awaits_def port_awaits_def
    by (blast, blast, blast, blast, blast, cases "select_victim h (cacheStore st)", auto)
  then have "\<exists>st1. FullyAssocCache_insert st pkt h = Inr st1"
    by (rule FullyAssocCache_insert_total)
  then obtain st1 where ins: "FullyAssocCache_insert st pkt h = Inr st1" by blast
  note f = FullyAssocCache_insert_Inr[OF ins refl]
  show ?thesis
  proof (rule handleResponse_total[where ins = FullyAssocCache_insert
        and accF = FullyAssocCache_accessFunctional, OF aw ins f(5)])
    fix orig ml
    assume o: "originalPacket st = Some orig"
    with aw have "getBlockAddr orig (blockSize st) = getBlockAddr pkt (blockSize st)"
      and "isRead orig \<or> isWrite orig"
      by (simp_all add: port_awaits_def)
    from FullyAssocCache_replay_hits[OF ins this]
    show "\<exists>st3 orig1. FullyAssocCache_accessFunctional (st1\<lparr>missLatency := ml\<rparr>) orig =
            Inr (True, st3, orig1) \<and> store_only (st1\<lparr>missLatency := ml\<rparr>) st3" .
  qed
qed

subsection \<open>Accesses that leave the line of a block alone\<close>

lemma DirectCache_accessFunctional_other_block:
  assumes "DirectCache_accessFunctional st p = Inr (hit, st1, p1)"
    and "getBlockAddr p (blockSize st) \<noteq> b"
    and "cacheStore st ! idx = (b, Some l)" and "idx < length (cacheStore st)"
  shows "blockSize st1 = blockSize st \<and> capacity st1 = capacity st \<and>
         length (cacheStore st1) = length (cacheStore st) \<and>
         cacheStore st1 ! idx = cacheStore st ! idx"
proof -
  let ?j = "getBlockAddr p (blockSize st) mod capacity st"
  have "?j \<noteq> idx" if "fst (cacheStore st ! ?j) = getBlockAddr p (blockSize st)"
    using that assms(2,3) by auto
  then show ?thesis using assms(1)
    by (auto simp add: DirectCache_accessFunctional_def Let_def
        split: if_splits option.splits)
qed

lemma DirectCache_insert_other_slot:
  assumes "DirectCache_insert st p h = Inr st1"
    and "getBlockAddr p (blockSize st) mod capacity st \<noteq> idx"
  shows "blockSize st1 = blockSize st \<and> capacity st1 = capacity st \<and>
         length (cacheStore st1) = length (cacheStore st) \<and>
         cacheStore st1 ! idx = cacheStore st ! idx"
proof -
  note f = DirectCache_insert_Inr[OF assms(1) refl]
  note g = insert_frame_fields[OF f(7)]
  show ?thesis using f(6) g(1,2) assms(2) by simp
qed

lemma DirectCache_apply_leaves:
  assumes "DirectCache_apply st ops = Inr st2"
    and "\<forall>x \<in> set ops. leaves_block b (blockSize st) (capacity st) x"
    and "cacheStore st ! idx = (b, Some l)" and "idx < length (cacheStore st)"
    and "idx = b mod capacity st"
  shows "blockSize st2 = blockSize st \<and> capacity st2 = capacity st \<and>
         length (cacheStore st2) = length (cacheStore st) \<and>
         cacheStore st2 ! idx = cacheStore st ! idx"
  using assms
proof (induction st ops rule: DirectCache_apply.induct)
  case (1 st)
  then show ?case by simp
next
  case (2 st p as)
  from "2.prems"(1) obtain hit st1 p1 where
    a: "DirectCache_accessFunctional st p = Inr (hit, st1, p1)"
    and r: "DirectCache_apply st1 as = Inr st2"
    by (auto split: sum.splits)
  from "2.prems"(2) have nb: "getBlockAddr p (blockSize st) \<noteq> b" by simp
  note k = DirectCache_accessFunctional_other_block[OF a nb "2.prems"(3,4)]
  have "blockSize st2 = blockSize st1 \<and> capacity st2 = capacity st1 \<and>
         length (cacheStore st2) = length (cacheStore st1) \<and>
         cacheStore st2 ! idx = cacheStore st1 ! idx"
    using "2.IH"[OF a refl refl r] "2.prems"(2,3,4,5) k by simp
  with k show ?case by simp
next
  case (3 st p h as)
  from "3.prems"(1) obtain st1 where
    a: "DirectCache_insert st p h = Inr st1"
    and r: "DirectCache_apply st1 as = Inr st2"
    by (auto split: sum.splits)
  from "3.prems"(2,5) have nb: "getBlockAddr p (blockSize st) mod capacity st \<noteq> idx" by simp
  note k = DirectCache_insert_other_slot[OF a nb]
  have "blockSize st2 = blockSize st1 \<and> capacity st2 = capacity st1 \<and>
         length (cacheStore st2) = length (cacheStore st1) \<and>
         cacheStore st2 ! idx = cacheStore st1 ! idx"
    using "3.IH"[OF a r] "3.prems"(2,3,4,5) k by simp
  with k show ?case by simp
qed

subsection \<open>Evictions\<close>

lemma writeback_of_fields:
  "cmd (writeback_of t b l) = WritebackDirty" "getSize (writeback_of t b l) = b"
  "getAddr (writeback_of t b l) = blockAlign t b" "data (writeback_of t b l) = l"
  "paddr (req (writeback_of t b l)) = t" "\<not> needsResponse (writeback_of t b l)"
  by (simp_all add: writeback_of_def dataDynamic_def Packet_blk_def Request_new_def
      needsResponse_def)

lemma select_victim_returns:
  assumes "e \<in> set m" and "bucket_of h (fst e) < bucket_count h"
  shows "\<not> isl (select_victim (h\<lparr>draws := [bucket_of h (fst e), 0]\<rparr>) m)"
proof -
  let ?h = "h\<lparr>draws := [bucket_of h (fst e), 0]\<rparr>"
  let ?d = "bucket_of h (fst e)"
  have r: "random_mt_random 0 (bucket_count ?h - 1) ?d = ?d"
    using assms(2) by (simp add: random_mt_random_def)
  have "e \<in> set (bucket ?h m ?d)" using assms(1) by (simp add: bucket_def)
  then have ne: "length (bucket ?h m ?d) \<noteq> 0" by auto
  have "pick_bucket ?h m (draws ?h) = Some (?d, [0])"
    using r ne by (simp add: Let_def)
  then show ?thesis using assms(2) by (simp add: select_victim_def)
qed

lemma DirectCache_insert_evicts:
  assumes ins: "DirectCache_insert dc pkt h = Inr st1"
    and idx: "idx = getBlockAddr pkt (blockSize dc) mod capacity dc"
    and occ: "cacheStore dc ! idx = (tag, Some victim)"
    and wb: "wb = writeback_of tag (blockSize dc) victim"
    and line: "line = writeDataToBlock pkt (replicate (blockSize dc) 0) (blockSize dc)"
  shows "tag \<noteq> getBlockAddr pkt (blockSize dc) \<and>
         sent st1 = sent dc @ [SendTimingReq wb (reqAccepted h)] \<and>
         (\<exists>stm. MemSidePort_sendPacket dc wb h = Inr stm \<and> cacheStore stm = cacheStore dc \<and>
            st1 = stm\<lparr>cacheStore := (cacheStore stm)
                         [idx := (getBlockAddr pkt (blockSize dc), Some line)]\<rparr>)"
proof -
  note f = DirectCache_insert_Inr[OF ins idx]
  have v: "snd (cacheStore dc ! idx) = Some victim" and t: "fst (cacheStore dc ! idx) = tag"
    using occ by simp_all
  from f(5) v t have ne: "tag \<noteq> getBlockAddr pkt (blockSize dc)" by simp
  from f(9)[OF v] t wb have free: "memBlockedPacket (memPort dc) = None"
    and s: "sent st1 = sent dc @ [SendTimingReq wb (reqAccepted h)]"
    and m: "memPort st1 = \<lparr>memBlockedPacket = (if reqAccepted h then None else Some wb)\<rparr>"
    by simp_all
  let ?stm = "dc\<lparr>memPort := \<lparr>memBlockedPacket = (if reqAccepted h then None else Some wb)\<rparr>,
                 sent := sent dc @ [SendTimingReq wb (reqAccepted h)]\<rparr>"
  have send: "MemSidePort_sendPacket dc wb h = Inr ?stm"
    using free by (cases "memPort dc") (auto simp add: MemSidePort_sendPacket_def)
  from f(7) have e: "st1 = dc\<lparr>cacheStore := cacheStore st1, memPort := memPort st1, sent := sent st1\<rparr>"
    by (simp add: insert_frame_def)
  have "st1 = ?stm\<lparr>cacheStore := (cacheStore ?stm)
                         [idx := (getBlockAddr pkt (blockSize dc), Some line)]\<rparr>"
    by (subst e) (simp add: s m f(6) line)
  with ne s send show ?thesis by (intro conjI exI[of _ ?stm]) simp_all
qed

lemma FullyAssocCache_insert_evicts:
  assumes ins: "FullyAssocCache_insert fa pkt h = Inr st1"
    and full: "capacity fa \<le> length (cacheStore fa)"
    and line: "line = writeDataToBlock pkt (replicate (blockSize fa) 0) (blockSize fa)"
  shows "\<exists>block stm. select_victim h (cacheStore fa) = Inr block \<and> block \<in> set (cacheStore fa) \<and>
           sent st1 = sent fa @
             [SendTimingReq (writeback_of (fst block) (blockSize fa) (snd block)) (reqAccepted h)] \<and>
           MemSidePort_sendPacket fa (writeback_of (fst block) (blockSize fa) (snd block)) h =
             Inr stm \<and>
           cacheStore stm = cacheStore fa \<and>
           st1 = stm\<lparr>cacheStore := AList.update (getAddr pkt) line
                                       (AList.delete (fst block) (cacheStore stm))\<rparr>"
proof -
  note f = FullyAssocCache_insert_Inr[OF ins line]
  from f(7)[OF full] obtain block where
    sv: "select_victim h (cacheStore fa) = Inr block"
    and free: "memBlockedPacket (memPort fa) = None"
    and s: "sent st1 = sent fa @
                [SendTimingReq (writeback_of (fst block) (blockSize fa) (snd block))
                   (reqAccepted h)]"
    and m: "memPort st1 = \<lparr>memBlockedPacket =
                (if reqAccepted h then None
                 else Some (writeback_of (fst block) (blockSize fa) (snd block)))\<rparr>"
    and c: "cacheStore st1 =
                AList.update (getAddr pkt) line (AList.delete (fst block) (cacheStore fa))"
    by blast
  let ?wb = "writeback_of (fst block) (blockSize fa) (snd block)"
  let ?stm = "fa\<lparr>memPort := \<lparr>memBlockedPacket = (if reqAccepted h then None else Some ?wb)\<rparr>,
                 sent := sent fa @ [SendTimingReq ?wb (reqAccepted h)]\<rparr>"
  have send: "MemSidePort_sendPacket fa ?wb h = Inr ?stm"
    using free by (cases "memPort fa") (auto simp add: MemSidePort_sendPacket_def)
  from f(5) have e: "st1 = fa\<lparr>cacheStore := cacheStore st1, memPort := memPort st1, sent := sent st1\<rparr>"
    by (simp add: insert_frame_def)
  have "st1 = ?stm\<lparr>cacheStore := AList.update (getAddr pkt) line
                                       (AList.delete (fst block) (cacheStore ?stm))\<rparr>"
    by (subst e) (simp add: s m c)
  with sv s send select_victim_resident[OF sv] show ?thesis
    by (intro exI[of _ block] exI[of _ ?stm]) simp
qed

subsection \<open>The invariant of the controller is preserved\<close>

lemma accepted_request_none:
  assumes "list_all (\<lambda>m. \<not> is_request_msg m) ms"
  shows "accepted_request ms = None"
proof (cases "ms = []")
  case True
  then show ?thesis by (simp add: accepted_request_def)
next
  case False
  then have "last ms \<in> set ms" by simp
  with assms have "\<not> is_request_msg (last ms)" by (simp add: list_all_iff)
  with False show ?thesis
    by (cases "last ms") (auto simp add: accepted_request_def split: list.splits)
qed

lemma accepted_request_last:
  "accepted_request (ms @ [SendTimingReq pkt ok]) = (if ok \<and> needsResponse pkt then Some pkt else None)"
  by (cases ms) (simp_all add: accepted_request_def)

lemma note_request_fields:
  "blockSize (note_request st st1) = blockSize st1"
  "capacity (note_request st st1) = capacity st1"
  "cpuPorts (note_request st st1) = cpuPorts st1"
  "memPort (note_request st st1) = memPort st1"
  "blocked (note_request st st1) = blocked st1"
  "originalPacket (note_request st st1) = originalPacket st1"
  "waitingPortId (note_request st st1) = waitingPortId st1"
  "cacheStore (note_request st st1) = cacheStore st1"
  "hits (note_request st st1) = hits st1"
  "misses (note_request st st1) = misses st1"
  "accessEvents (note_request st st1) = accessEvents st1"
  "timingAccesses (note_request st st1) = timingAccesses st1"
  "sent (note_request st st1) = sent st1"
  "Cache.more (note_request st st1) = Cache.more st1"
  by (simp_all add: note_request_def split: option.splits)

lemma note_request_outstanding:
  assumes "sent st1 = sent st @ ms"
  shows "outstanding (note_request st st1) =
           (case accepted_request ms of None \<Rightarrow> outstanding st1 | Some p \<Rightarrow> Some p)"
  using assms by (simp add: note_request_def split: option.splits)

lemma parked_request_cong:
  "memPort st1 = memPort st \<Longrightarrow> parked_request st1 = parked_request st"
  by (simp add: parked_request_def)

lemma recvTimingReq_Inr:
  assumes "recvTimingReq st i pkt = Inr (ok, st1)"
  shows "i < length (cpuPorts st)"
    and "ok \<Longrightarrow> \<not> blocked st \<and> waitingPortId st = -1 \<and>
           blockedPacket (cpuPorts st ! i) = None \<and>
           st1 = st\<lparr>blocked := True, waitingPortId := int i,
                    accessEvents := accessEvents st @ [pkt]\<rparr>"
    and "\<not> ok \<Longrightarrow> st1 = st\<lparr>cpuPorts := (cpuPorts st)[i := (cpuPorts st ! i)\<lparr>needRetry := True\<rparr>]\<rparr>"
  using assms
  by (auto simp add: recvTimingReq_def handleRequest_def Let_def split: if_splits)

lemma controller_inv_recvTimingReq:
  assumes inv: "controller_inv st" and r: "recvTimingReq st i pkt = Inr (ok, st1)"
  shows "controller_inv st1"
proof (cases ok)
  case True
  note f = recvTimingReq_Inr[OF r]
  from f(2)[OF True] have nb: "\<not> blocked st" and bp: "blockedPacket (cpuPorts st ! i) = None"
    and e: "st1 = st\<lparr>blocked := True, waitingPortId := int i,
                    accessEvents := accessEvents st @ [pkt]\<rparr>" by simp_all
  from inv nb have z: "originalPacket st = None" "accessEvents st = []" "outstanding st = None"
    "\<not> parked_request st" "hits st + misses st = timingAccesses st"
    by (simp_all add: controller_inv_def)
  show ?thesis
    unfolding controller_inv_def
    by (subst e)+ (use z f(1) bp in \<open>simp add: parked_request_def\<close>)
next
  case False
  note f = recvTimingReq_Inr[OF r]
  from f(3)[OF False] have
    e: "st1 = st\<lparr>cpuPorts := (cpuPorts st)[i := (cpuPorts st ! i)\<lparr>needRetry := True\<rparr>]\<rparr>" .
  have bp: "blockedPacket ((cpuPorts st)[i := (cpuPorts st ! i)\<lparr>needRetry := True\<rparr>] ! j) =
       blockedPacket (cpuPorts st ! j)" for j
    using f(1) by (cases "j = i") simp_all
  show ?thesis
    using inv unfolding controller_inv_def
    by (subst e)+ (simp add: parked_request_def bp)
qed

lemma ports_only_sent:
  assumes "ports_only st st1"
  shows "\<exists>ms. sent st1 = sent st @ ms \<and> accepted_request ms = None"
  using assms accepted_request_none by (auto simp add: ports_only_def)

lemma controller_inv_accessEvent:
  assumes inv: "controller_inv st"
    and A1: "\<And>s p hit s1 p1. accF s p = Inr (hit, s1, p1) \<Longrightarrow> store_only s s1"
    and ev: "accessEvents st = pkt0 # evs"
    and r: "accessTiming accF (st\<lparr>accessEvents := evs\<rparr>) pkt0 h = Inr st1"
  shows "controller_inv (note_request st (st1\<lparr>timingAccesses := timingAccesses st1 + 1\<rparr>))"
proof -
  let ?st0 = "st\<lparr>accessEvents := evs\<rparr>"
  let ?res = "note_request st (st1\<lparr>timingAccesses := timingAccesses st1 + 1\<rparr>)"
  from inv ev have b: "blocked st" and o: "originalPacket st = None"
    and out: "outstanding st = None" and e0: "evs = []" and np: "\<not> parked_request st"
    and wp: "waitingPortId st \<noteq> -1" "0 \<le> waitingPortId st"
      "waitingPortId st < int (length (cpuPorts st))"
      "blockedPacket (cpuPorts st ! nat (waitingPortId st)) = None"
    and hm: "hits st + misses st = timingAccesses st"
    by (auto simp add: controller_inv_def)
  from r show ?thesis
  proof (cases rule: accessTiming_cases)
    case (hit sa pk)
    note k = store_only_fields[OF A1[OF hit(1)]]
    from sendResponse_ports_only[OF hit(2)]
    have po: "ports_only (sa\<lparr>hits := hits sa + 1, blocked := False, waitingPortId := -1\<rparr>) st1"
      by simp
    note pf = ports_only_fields[OF po]
    from ports_only_sent[OF po] obtain ms where
      s: "sent st1 = sent st @ ms" and a: "accepted_request ms = None"
      using k by auto
    have s': "sent (st1\<lparr>timingAccesses := timingAccesses st1 + 1\<rparr>) = sent st @ ms"
      using s by simp
    have os: "outstanding ?res = None"
      using note_request_outstanding[OF s'] a pf k out by simp
    have pr: "\<not> parked_request ?res"
      using np pf k by (simp add: parked_request_def note_request_fields)
    show ?thesis
      unfolding controller_inv_def
      using os pr pf k o e0 hm by (simp add: note_request_fields)
  next
    case (forward sa pk)
    note k = store_only_fields[OF A1[OF forward(1)]]
    note m = MemSidePort_sendPacket_Inr[OF forward(4)]
    have d: "drop (length (sent st)) (sent st @ ms) = ms" for ms :: "Msg list" by simp
    show ?thesis
      unfolding m(2) controller_inv_def
      using b wp hm o e0 out k
      by (simp add: note_request_def accepted_request_def parked_request_def d)
  next
    case (upgrade sa pk)
    note k = store_only_fields[OF A1[OF upgrade(1)]]
    note m = MemSidePort_sendPacket_Inr[OF upgrade(6)]
    have d: "drop (length (sent st)) (sent st @ ms) = ms" for ms :: "Msg list" by simp
    show ?thesis
      unfolding m(2) controller_inv_def
      using b wp hm o e0 out k
      by (simp add: note_request_def accepted_request_def parked_request_def d)
  qed
qed

lemma handleResponse_Inr:
  assumes "handleResponse ins accF st pkt h = Inr (ok, st1)"
  obtains (plain) s1 where "blocked st" and "ins st pkt h = Inr s1"
      and "originalPacket s1 = None"
      and "sendResponse (s1\<lparr>missLatency := missLatency s1 @ [curTick h - missTime s1]\<rparr>) pkt h =
             Inr st1"
  | (replay) s1 orig s3 orig1 where "blocked st" and "ins st pkt h = Inr s1"
      and "originalPacket s1 = Some orig"
      and "accF (s1\<lparr>missLatency := missLatency s1 @ [curTick h - missTime s1]\<rparr>) orig =
             Inr (True, s3, orig1)"
      and "sendResponse (s3\<lparr>originalPacket := None\<rparr>) (makeResponse orig1) h = Inr st1"
proof -
  from assms have b: "blocked st" by (auto simp add: handleResponse_def split: if_splits)
  from assms b obtain s1 where i: "ins st pkt h = Inr s1"
    by (auto simp add: handleResponse_def split: sum.splits)
  show thesis
  proof (cases "originalPacket s1")
    case None
    with assms b i have
      "sendResponse (s1\<lparr>missLatency := missLatency s1 @ [curTick h - missTime s1]\<rparr>) pkt h =
             Inr st1"
      by (auto simp add: handleResponse_def Let_def split: sum.splits)
    with b i None show thesis using plain by blast
  next
    case (Some orig)
    with assms b i obtain s3 orig1 where
      "accF (s1\<lparr>missLatency := missLatency s1 @ [curTick h - missTime s1]\<rparr>) orig =
             Inr (True, s3, orig1)"
      and "sendResponse (s3\<lparr>originalPacket := None\<rparr>) (makeResponse orig1) h = Inr st1"
      by (auto simp add: handleResponse_def Let_def split: sum.splits if_splits)
    with b i Some show thesis using replay by blast
  qed
qed

lemma controller_inv_handleResponse:
  assumes inv: "controller_inv st"
    and A1: "\<And>s p hit s1 p1. accF s p = Inr (hit, s1, p1) \<Longrightarrow> store_only s s1"
    and A2: "\<And>s p h s1. ins s p h = Inr s1 \<Longrightarrow>
               insert_frame s s1 \<and> (parked_request s1 \<longrightarrow> parked_request s)"
    and out: "outstanding st = Some q"
    and r: "handleResponse ins accF (st\<lparr>outstanding := None\<rparr>) pkt h = Inr (ok, st1)"
  shows "controller_inv st1"
proof -
  let ?st0 = "st\<lparr>outstanding := None\<rparr>"
  from inv out have np: "\<not> parked_request st" and e0: "accessEvents st = []"
    and hm: "hits st + misses st = timingAccesses st"
    by (auto simp add: controller_inv_def)
  have np0: "\<not> parked_request ?st0" using np by (simp add: parked_request_def)
  from r show ?thesis
  proof (cases rule: handleResponse_Inr)
    case (plain s1)
    note a = A2[OF plain(2)]
    note g = insert_frame_fields[OF a[THEN conjunct1]]
    from a np0 have np1: "\<not> parked_request s1" by blast
    from sendResponse_ports_only[OF plain(4)] have
      po: "ports_only (s1\<lparr>missLatency := missLatency s1 @ [curTick h - missTime s1],
              blocked := False, waitingPortId := -1\<rparr>) st1" by simp
    note pf = ports_only_fields[OF po]
    have "\<not> parked_request st1" using np1 pf(3) by (simp add: parked_request_def)
    then show ?thesis
      unfolding controller_inv_def using pf g plain(3) e0 hm by simp
  next
    case (replay s1 orig s3 orig1)
    note a = A2[OF replay(2)]
    note g = insert_frame_fields[OF a[THEN conjunct1]]
    from a np0 have np1: "\<not> parked_request s1" by blast
    note k = store_only_fields[OF A1[OF replay(4)]]
    from sendResponse_ports_only[OF replay(5)] have
      po: "ports_only (s3\<lparr>originalPacket := None, blocked := False, waitingPortId := -1\<rparr>) st1"
      by simp
    note pf = ports_only_fields[OF po]
    have "\<not> parked_request st1" using np1 pf(3) k(3) by (simp add: parked_request_def)
    then show ?thesis
      unfolding controller_inv_def using pf k g e0 hm by simp
  qed
qed

lemma controller_inv_recvReqRetry:
  assumes inv: "controller_inv st"
    and r: "recvReqRetry st h = Inr st1"
  shows "controller_inv (note_request st st1)"
proof -
  from r obtain pkt where p: "memBlockedPacket (memPort st) = Some pkt"
    and s: "MemSidePort_sendPacket (st\<lparr>memPort := (memPort st)\<lparr>memBlockedPacket := None\<rparr>\<rparr>) pkt h =
       Inr st1"
    by (auto simp add: recvReqRetry_def split: option.splits)
  note m = MemSidePort_sendPacket_Inr[OF s]
  have d: "drop (length (sent st)) (sent st @ ms) = ms" for ms :: "Msg list" by simp
  show ?thesis
    unfolding m(2) controller_inv_def
    using inv p
    by (auto simp add: controller_inv_def note_request_def accepted_request_def
        parked_request_def d)
qed

lemma recvRespRetry_Inr:
  assumes "recvRespRetry st i h = Inr st1"
  shows "ports_only st st1" and "i < length (cpuPorts st)"
    and "blockedPacket (cpuPorts st ! i) \<noteq> None"
    and "j \<noteq> i \<Longrightarrow> cpuPorts st1 ! j = cpuPorts st ! j"
proof -
  from assms have l: "i < length (cpuPorts st)"
    by (auto simp add: recvRespRetry_def split: if_splits)
  from assms l obtain pkt where bp: "blockedPacket (cpuPorts st ! i) = Some pkt"
    by (auto simp add: recvRespRetry_def split: option.splits)
  let ?sa = "st\<lparr>cpuPorts := (cpuPorts st)[i := (cpuPorts st ! i)\<lparr>blockedPacket := None\<rparr>]\<rparr>"
  from assms l bp obtain sb where
    c: "CPUSidePort_sendPacket ?sa (int i) pkt h = Inr sb" and t: "st1 = trySendRetry sb i"
    by (auto simp add: recvRespRetry_def split: sum.splits)
  have pa: "ports_only st ?sa" by (simp add: ports_only_def)
  show "ports_only st st1"
    using ports_only_trans[OF pa ports_only_trans[OF CPUSidePort_sendPacket_ports_only[OF c]
        trySendRetry_ports_only[of sb i]]] t by simp
  show "i < length (cpuPorts st)" by (rule l)
  show "blockedPacket (cpuPorts st ! i) \<noteq> None" using bp by simp
  show "cpuPorts st1 ! j = cpuPorts st ! j" if "j \<noteq> i"
  proof -
    from c have "cpuPorts sb ! j = cpuPorts st ! j"
      using that by (auto simp add: CPUSidePort_sendPacket_def Let_def split: if_splits)
    moreover have "cpuPorts (trySendRetry sb i) ! j = cpuPorts sb ! j"
      using that by (simp add: trySendRetry_def Let_def)
    ultimately show ?thesis using t by simp
  qed
qed

lemma controller_inv_recvRespRetry:
  assumes inv: "controller_inv st"
    and r: "recvRespRetry st i h = Inr st1"
  shows "controller_inv st1"
proof -
  note f = recvRespRetry_Inr[OF r]
  note pf = ports_only_fields[OF f(1)]
  have port: "blockedPacket (cpuPorts st1 ! nat (waitingPortId st)) = None" if "blocked st"
  proof -
    from inv that have z: "blockedPacket (cpuPorts st ! nat (waitingPortId st)) = None"
      by (simp add: controller_inv_def)
    with f(3) have "nat (waitingPortId st) \<noteq> i" by auto
    from f(4)[OF this] z show ?thesis by simp
  qed
  have "parked_request st1 = parked_request st" using pf(3) by (simp add: parked_request_def)
  then show ?thesis
    using inv port unfolding controller_inv_def by (simp add: pf)
qed

lemma controller_inv_handleFunctional:
  assumes inv: "controller_inv st"
    and A1: "\<And>s p hit s1 p1. accF s p = Inr (hit, s1, p1) \<Longrightarrow> store_only s s1"
    and r: "handleFunctional accF st pkt = Inr (st1, pkt1)"
  shows "controller_inv st1"
proof -
  from r obtain hit sa pa where a: "accF st pkt = Inr (hit, sa, pa)"
    and e: "st1 = sa \<or> st1 = sa\<lparr>sent := sent sa @ [SendFunctional pa]\<rparr>"
    by (auto simp add: handleFunctional_def split: sum.splits if_splits)
  note k = store_only_fields[OF A1[OF a]]
  have "parked_request sa = parked_request st" using k(3) by (simp add: parked_request_def)
  then have "controller_inv sa" using inv unfolding controller_inv_def by (simp add: k)
  then show ?thesis using e by (auto simp add: controller_inv_def parked_request_def)
qed

lemma controller_inv_step:
  assumes inv: "controller_inv st"
    and A1: "\<And>s p hit s1 p1. accF s p = Inr (hit, s1, p1) \<Longrightarrow> store_only s s1"
    and A2: "\<And>s p h s1. ins s p h = Inr s1 \<Longrightarrow>
               insert_frame s s1 \<and> (parked_request s1 \<longrightarrow> parked_request s)"
    and r: "step ins accF ev st = Inr st1"
  shows "controller_inv st1"
proof (cases ev)
  case (RecvTimingReq i pkt)
  with r obtain ok where "recvTimingReq st i pkt = Inr (ok, st1)"
    by (auto simp add: step_def split: sum.splits)
  from controller_inv_recvTimingReq[OF inv this] show ?thesis .
next
  case (AccessEvent h)
  with r obtain pkt evs s1 where e: "accessEvents st = pkt # evs"
    and a: "accessTiming accF (st\<lparr>accessEvents := evs\<rparr>) pkt h = Inr s1"
    and s: "st1 = note_request st (s1\<lparr>timingAccesses := timingAccesses s1 + 1\<rparr>)"
    by (auto simp add: step_def split: list.splits sum.splits)
  from controller_inv_accessEvent[of st accF, OF inv A1 e a] s show ?thesis by simp
next
  case (RecvTimingResp payload h)
  with r obtain q ok where o: "outstanding st = Some q"
    and a: "handleResponse ins accF (st\<lparr>outstanding := None\<rparr>) (response_to q payload) h =
              Inr (ok, st1)"
    by (auto simp add: step_def recvTimingResp_def split: option.splits sum.splits if_splits)
  from controller_inv_handleResponse[of st accF ins, OF inv A1 A2 o a] show ?thesis .
next
  case (RecvReqRetry h)
  with r obtain s1 where a: "recvReqRetry st h = Inr s1" and s: "st1 = note_request st s1"
    by (auto simp add: step_def split: option.splits sum.splits)
  from controller_inv_recvReqRetry[OF inv a] s show ?thesis by simp
next
  case (RecvRespRetry i h)
  with r have "recvRespRetry st i h = Inr st1"
    by (auto simp add: step_def split: if_splits)
  from controller_inv_recvRespRetry[OF inv this] show ?thesis .
next
  case (RecvFunctional i pkt)
  with r obtain p1 where "handleFunctional accF st pkt = Inr (st1, p1)"
    by (auto simp add: step_def recvFunctional_def split: sum.splits)
  from controller_inv_handleFunctional[of st accF, OF inv A1 this] show ?thesis .
qed

lemma run_invariant:
  assumes "run stp evs st = Inr st1" and "I st"
    and "\<And>ev s s1. I s \<Longrightarrow> stp ev s = Inr s1 \<Longrightarrow> I s1"
  shows "I st1"
  using assms(1,2)
proof (induction evs arbitrary: st)
  case Nil
  then show ?case by simp
next
  case (Cons ev evs)
  from Cons.prems(1) obtain s1 where a: "stp ev st = Inr s1" and b: "run stp evs s1 = Inr st1"
    by (auto split: sum.splits)
  from Cons.IH[OF b assms(3)[OF Cons.prems(2) a]] show ?case .
qed

lemma DirectCache_A1:
  "DirectCache_accessFunctional s p = Inr (hit, s1, p1) \<Longrightarrow> store_only s s1"
  by (rule DirectCache_accessFunctional_Inr(1))

lemma DirectCache_A2:
  assumes "DirectCache_insert s p h = Inr s1"
  shows "insert_frame s s1 \<and> (parked_request s1 \<longrightarrow> parked_request s)"
proof -
  note f = DirectCache_insert_Inr[OF assms refl]
  let ?idx = "getBlockAddr p (blockSize s) mod capacity s"
  have "parked_request s1 \<longrightarrow> parked_request s"
  proof (cases "snd (cacheStore s ! ?idx)")
    case None
    from f(8)[OF None] show ?thesis by (simp add: parked_request_def)
  next
    case (Some victim)
    from f(9)[OF Some] show ?thesis
      by (simp add: parked_request_def writeback_of_fields)
  qed
  with f(7) show ?thesis by simp
qed

lemma FullyAssocCache_A1:
  "FullyAssocCache_accessFunctional s p = Inr (hit, s1, p1) \<Longrightarrow> store_only s s1"
  by (rule FullyAssocCache_accessFunctional_Inr(1))

lemma FullyAssocCache_A2:
  assumes "FullyAssocCache_insert s p h = Inr s1"
  shows "insert_frame s s1 \<and> (parked_request s1 \<longrightarrow> parked_request s)"
proof -
  note f = FullyAssocCache_insert_Inr[OF assms refl]
  have "parked_request s1 \<longrightarrow> parked_request s"
  proof (cases "length (cacheStore s) < capacity s")
    case True
    from f(6)[OF True] show ?thesis by (simp add: parked_request_def)
  next
    case False
    then have "capacity s \<le> length (cacheStore s)" by simp
    from f(7)[OF this] show ?thesis
      by (auto simp add: parked_request_def writeback_of_fields split: if_splits)
  qed
  with f(5) show ?thesis by simp
qed

lemma controller_inv_new:
  "controller_inv (DirectCache_new blkSize cap n)"
  "controller_inv (FullyAssocCache_new blkSize cap n opt)"
  by (simp_all add: controller_inv_def DirectCache_new_def FullyAssocCache_new_def
      parked_request_def)

lemma DirectCache_reachable_controller_inv:
  assumes "run DirectCache_step evs (DirectCache_new blkSize cap n) = Inr st"
  shows "controller_inv st"
proof (rule run_invariant[OF assms, where I = controller_inv])
  show "controller_inv (DirectCache_new blkSize cap n)" by (rule controller_inv_new)
next
  fix ev s s1
  assume i: "controller_inv s" and "DirectCache_step ev s = Inr s1"
  then have r: "step DirectCache_insert DirectCache_accessFunctional ev s = Inr s1"
    by (simp add: DirectCache_step_def)
  show "controller_inv s1"
    by (rule controller_inv_step[where ins = DirectCache_insert
          and accF = DirectCache_accessFunctional, OF i _ _ r])
      (erule DirectCache_A1, erule DirectCache_A2)
qed

lemma FullyAssocCache_reachable_controller_inv:
  assumes "run FullyAssocCache_step evs (FullyAssocCache_new blkSize cap n opt) = Inr st"
  shows "controller_inv st"
proof (rule run_invariant[OF assms, where I = controller_inv])
  show "controller_inv (FullyAssocCache_new blkSize cap n opt)" by (rule controller_inv_new)
next
  fix ev s s1
  assume i: "controller_inv s" and "FullyAssocCache_step ev s = Inr s1"
  then have r: "step FullyAssocCache_insert FullyAssocCache_accessFunctional ev s = Inr s1"
    by (simp add: FullyAssocCache_step_def)
  show "controller_inv s1"
    by (rule controller_inv_step[where ins = FullyAssocCache_insert
          and accF = FullyAssocCache_accessFunctional, OF i _ _ r])
      (erule FullyAssocCache_A1, erule FullyAssocCache_A2)
qed

lemma store_inv_step:
  assumes P: "P st"
    and Pacc: "\<And>s p hit s1 p1. P s \<Longrightarrow> accF s p = Inr (hit, s1, p1) \<Longrightarrow> P s1"
    and Pins: "\<And>s p h s1. P s \<Longrightarrow> ins s p h = Inr s1 \<Longrightarrow> P s1"
    and Pframe: "\<And>s s1. P s \<Longrightarrow> cacheStore s1 = cacheStore s \<Longrightarrow>
        capacity s1 = capacity s \<Longrightarrow> blockSize s1 = blockSize s \<Longrightarrow>
        Cache.more s1 = Cache.more s \<Longrightarrow> P s1"
    and r: "step ins accF ev st = Inr st1"
  shows "P st1"
proof (cases ev)
  case (RecvTimingReq i pkt)
  with r obtain ok where a: "recvTimingReq st i pkt = Inr (ok, st1)"
    by (auto simp add: step_def split: sum.splits)
  note f = recvTimingReq_Inr[OF a]
  show ?thesis
  proof (cases ok)
    case True
    from f(2)[OF True] have e: "st1 = st\<lparr>blocked := True, waitingPortId := int i,
                    accessEvents := accessEvents st @ [pkt]\<rparr>" by simp
    show ?thesis unfolding e by (rule Pframe[OF P]) simp_all
  next
    case False
    note e = f(3)[OF False]
    show ?thesis unfolding e by (rule Pframe[OF P]) simp_all
  qed
next
  case (AccessEvent h)
  with r obtain pkt evs s1 where e: "accessEvents st = pkt # evs"
    and a: "accessTiming accF (st\<lparr>accessEvents := evs\<rparr>) pkt h = Inr s1"
    and s: "st1 = note_request st (s1\<lparr>timingAccesses := timingAccesses s1 + 1\<rparr>)"
    by (auto simp add: step_def split: list.splits sum.splits)
  have P0: "P (st\<lparr>accessEvents := evs\<rparr>)" by (rule Pframe[OF P]) simp_all
  have "P s1"
    using a
  proof (cases rule: accessTiming_cases)
    case (hit sa pk)
    note Pa = Pacc[OF P0 hit(1)]
    from sendResponse_ports_only[OF hit(2)]
    have po: "ports_only (sa\<lparr>hits := hits sa + 1, blocked := False, waitingPortId := -1\<rparr>) s1"
      by simp
    note pf = ports_only_fields[OF po]
    show ?thesis by (rule Pframe[OF Pa]) (use pf in simp_all)
  next
    case (forward sa pk)
    note Pa = Pacc[OF P0 forward(1)]
    note m = MemSidePort_sendPacket_Inr[OF forward(4)]
    show ?thesis by (rule Pframe[OF Pa]; subst m(2)) simp_all
  next
    case (upgrade sa pk)
    note Pa = Pacc[OF P0 upgrade(1)]
    note m = MemSidePort_sendPacket_Inr[OF upgrade(6)]
    show ?thesis by (rule Pframe[OF Pa]; subst m(2)) simp_all
  qed
  then show ?thesis unfolding s by (rule Pframe) (simp_all add: note_request_fields)
next
  case (RecvTimingResp payload h)
  with r obtain q ok where o: "outstanding st = Some q"
    and a: "handleResponse ins accF (st\<lparr>outstanding := None\<rparr>) (response_to q payload) h =
              Inr (ok, st1)"
    by (auto simp add: step_def recvTimingResp_def split: option.splits sum.splits if_splits)
  have P0: "P (st\<lparr>outstanding := None\<rparr>)" by (rule Pframe[OF P]) simp_all
  from a show ?thesis
  proof (cases rule: handleResponse_Inr)
    case (plain s1)
    note P1 = Pins[OF P0 plain(2)]
    from sendResponse_ports_only[OF plain(4)] have
      po: "ports_only (s1\<lparr>missLatency := missLatency s1 @ [curTick h - missTime s1],
              blocked := False, waitingPortId := -1\<rparr>) st1" by simp
    note pf = ports_only_fields[OF po]
    show ?thesis by (rule Pframe[OF P1]) (use pf in simp_all)
  next
    case (replay s1 orig s3 orig1)
    note P1 = Pins[OF P0 replay(2)]
    have P2: "P (s1\<lparr>missLatency := missLatency s1 @ [curTick h - missTime s1]\<rparr>)"
      by (rule Pframe[OF P1]) simp_all
    note P3 = Pacc[OF P2 replay(4)]
    from sendResponse_ports_only[OF replay(5)] have
      po: "ports_only (s3\<lparr>originalPacket := None, blocked := False, waitingPortId := -1\<rparr>) st1"
      by simp
    note pf = ports_only_fields[OF po]
    show ?thesis by (rule Pframe[OF P3]) (use pf in simp_all)
  qed
next
  case (RecvReqRetry h)
  with r obtain s1 where a: "recvReqRetry st h = Inr s1" and s: "st1 = note_request st s1"
    by (auto simp add: step_def split: option.splits sum.splits)
  from a obtain pkt where
    m: "MemSidePort_sendPacket (st\<lparr>memPort := (memPort st)\<lparr>memBlockedPacket := None\<rparr>\<rparr>) pkt h =
       Inr s1"
    by (auto simp add: recvReqRetry_def split: option.splits)
  note e = MemSidePort_sendPacket_Inr(2)[OF m]
  show ?thesis unfolding s
    by (rule Pframe[OF P]; simp add: note_request_fields; subst e) simp_all
next
  case (RecvRespRetry i h)
  with r have "recvRespRetry st i h = Inr st1"
    by (auto simp add: step_def split: if_splits)
  note pf = ports_only_fields[OF recvRespRetry_Inr(1)[OF this]]
  show ?thesis by (rule Pframe[OF P]) (use pf in simp_all)
next
  case (RecvFunctional i pkt)
  with r obtain p1 where "handleFunctional accF st pkt = Inr (st1, p1)"
    by (auto simp add: step_def recvFunctional_def split: sum.splits)
  then obtain hit sa pa where a: "accF st pkt = Inr (hit, sa, pa)"
    and e: "st1 = sa \<or> st1 = sa\<lparr>sent := sent sa @ [SendFunctional pa]\<rparr>"
    by (auto simp add: handleFunctional_def split: sum.splits if_splits)
  note Pa = Pacc[OF P a]
  from e show ?thesis
  proof
    assume "st1 = sa" with Pa show ?thesis by simp
  next
    assume e: "st1 = sa\<lparr>sent := sent sa @ [SendFunctional pa]\<rparr>"
    show ?thesis unfolding e by (rule Pframe[OF Pa]) simp_all
  qed
qed

lemma DirectCache_store_inv_accessFunctional:
  assumes "DirectCache_store_inv s" and "DirectCache_accessFunctional s p = Inr (hit, s1, p1)"
  shows "DirectCache_store_inv s1"
proof -
  note f = DirectCache_accessFunctional_Inr[OF assms(2)]
  note k = store_only_fields[OF f(1)]
  have l: "length (cacheStore s1) = length (cacheStore s)"
    using f(2) by (metis length_map)
  have a: "fst (cacheStore s1 ! i) = fst (cacheStore s ! i)" if "i < length (cacheStore s)" for i
    using f(2) that l by (metis nth_map)
  have b: "(snd (cacheStore s1 ! i) = None) = (snd (cacheStore s ! i) = None)"
    if "i < length (cacheStore s)" for i
  proof -
    have "map (\<lambda>e. snd e = None) (cacheStore s1) ! i = map (\<lambda>e. snd e = None) (cacheStore s) ! i"
      using f(3) by simp
    then show ?thesis using that l by simp
  qed
  show ?thesis
    using assms(1) l a b k(1,2) unfolding DirectCache_store_inv_def by simp
qed

lemma DirectCache_store_inv_insert:
  assumes "DirectCache_store_inv s" and "DirectCache_insert s p h = Inr s1"
  shows "DirectCache_store_inv s1"
proof -
  note f = DirectCache_insert_Inr[OF assms(2) refl]
  note g = insert_frame_fields[OF f(7)]
  let ?idx = "getBlockAddr p (blockSize s) mod capacity s"
  have al: "blockAlign (getBlockAddr p (blockSize s)) (blockSize s) = getBlockAddr p (blockSize s)"
    by (simp add: getBlockAddr_def blockAlign_idem)
  show ?thesis
    unfolding DirectCache_store_inv_def
  proof (intro conjI allI impI)
    show "length (cacheStore s1) = capacity s1"
      using assms(1) f(6) g(2) by (simp add: DirectCache_store_inv_def)
  next
    fix i
    assume i: "i < length (cacheStore s1)" and o: "snd (cacheStore s1 ! i) \<noteq> None"
    from i f(6) have i': "i < length (cacheStore s)" by simp
    show "fst (cacheStore s1 ! i) mod capacity s1 = i"
    proof (cases "i = ?idx")
      case True
      with f(6) i' g(2) show ?thesis by simp
    next
      case False
      with f(6) i' o assms(1) g(2) show ?thesis by (simp add: DirectCache_store_inv_def)
    qed
    show "blockAlign (fst (cacheStore s1 ! i)) (blockSize s1) = fst (cacheStore s1 ! i)"
    proof (cases "i = ?idx")
      case True
      with f(6) i' g(1) al show ?thesis by simp
    next
      case False
      with f(6) i' o assms(1) g(1) show ?thesis by (simp add: DirectCache_store_inv_def)
    qed
  qed
qed

lemma DirectCache_store_inv_frame:
  assumes "DirectCache_store_inv s" and "cacheStore s1 = cacheStore s"
    and "capacity s1 = capacity s" and "blockSize s1 = blockSize s"
  shows "DirectCache_store_inv s1"
  using assms by (simp add: DirectCache_store_inv_def)

lemma DirectCache_store_inv_new: "DirectCache_store_inv (DirectCache_new blkSize cap n)"
  by (simp add: DirectCache_store_inv_def DirectCache_new_def)

lemma DirectCache_reachable_store_inv:
  assumes "run DirectCache_step evs (DirectCache_new blkSize cap n) = Inr st"
  shows "DirectCache_store_inv st"
proof (rule run_invariant[OF assms, where I = DirectCache_store_inv])
  show "DirectCache_store_inv (DirectCache_new blkSize cap n)" by (rule DirectCache_store_inv_new)
next
  fix ev s s1
  assume i: "DirectCache_store_inv s" and "DirectCache_step ev s = Inr s1"
  then have r: "step DirectCache_insert DirectCache_accessFunctional ev s = Inr s1"
    by (simp add: DirectCache_step_def)
  show "DirectCache_store_inv s1"
    by (rule store_inv_step[where P = DirectCache_store_inv and ins = DirectCache_insert
          and accF = DirectCache_accessFunctional, OF i _ _ _ r])
      (erule (1) DirectCache_store_inv_accessFunctional, erule (1) DirectCache_store_inv_insert,
        erule (3) DirectCache_store_inv_frame)
qed

lemma distinct_by_slot:
  assumes "\<forall>i < length xs. P (xs ! i) \<longrightarrow> f (g (xs ! i)) = k + i"
  shows "distinct (map g (filter P xs))"
  using assms
proof (induction xs arbitrary: k)
  case Nil
  then show ?case by simp
next
  case (Cons x xs)
  have rest: "\<forall>i < length xs. P (xs ! i) \<longrightarrow> f (g (xs ! i)) = Suc k + i"
  proof (intro allI impI)
    fix i assume "i < length xs" "P (xs ! i)"
    with Cons.prems[rule_format, of "Suc i"] show "f (g (xs ! i)) = Suc k + i" by simp
  qed
  note IH = Cons.IH[OF rest]
  show ?case
  proof (cases "P x")
    case False
    with IH show ?thesis by simp
  next
    case True
    from Cons.prems[rule_format, of 0] True have fx: "f (g x) = k" by simp
    have "g x \<notin> g ` set (filter P xs)"
    proof
      assume "g x \<in> g ` set (filter P xs)"
      then obtain e where e: "e \<in> set xs" "P e" "g e = g x" by auto
      then obtain j where "j < length xs" "xs ! j = e" by (auto simp add: in_set_conv_nth)
      with rest e(2) have "f (g e) = Suc k + j" by auto
      with e(3) fx show False by simp
    qed
    with IH True show ?thesis by simp
  qed
qed

lemma DirectCache_store_inv_resident:
  assumes "DirectCache_store_inv st"
  shows "distinct (DirectCache_resident st)"
    and "length (DirectCache_resident st) \<le> capacity st"
    and "\<forall>t \<in> set (DirectCache_resident st). blockAlign t (blockSize st) = t"
proof -
  from assms have "\<forall>i < length (cacheStore st). snd (cacheStore st ! i) \<noteq> None \<longrightarrow>
      fst (cacheStore st ! i) mod capacity st = 0 + i"
    by (simp add: DirectCache_store_inv_def)
  from distinct_by_slot[where f = "\<lambda>t. t mod capacity st" and g = fst
      and P = "\<lambda>e. snd e \<noteq> None", OF this]
  show "distinct (DirectCache_resident st)" by (simp add: DirectCache_resident_def)
  have "length (filter (\<lambda>e. snd e \<noteq> None) (cacheStore st)) \<le> length (cacheStore st)"
    by (rule length_filter_le)
  with assms show "length (DirectCache_resident st) \<le> capacity st"
    by (simp add: DirectCache_resident_def DirectCache_store_inv_def)
  show "\<forall>t \<in> set (DirectCache_resident st). blockAlign t (blockSize st) = t"
  proof
    fix t assume "t \<in> set (DirectCache_resident st)"
    then obtain e where e: "e \<in> set (cacheStore st)" "snd e \<noteq> None" "fst e = t"
      by (auto simp add: DirectCache_resident_def)
    then obtain i where "i < length (cacheStore st)" "cacheStore st ! i = e"
      by (auto simp add: in_set_conv_nth)
    with assms e show "blockAlign t (blockSize st) = t"
      by (auto simp add: DirectCache_store_inv_def)
  qed
qed

lemma FullyAssocCache_store_inv_accessFunctional:
  assumes "FullyAssocCache_store_inv s"
    and "FullyAssocCache_accessFunctional s p = Inr (hit, s1, p1)"
  shows "FullyAssocCache_store_inv s1"
proof -
  note f = FullyAssocCache_accessFunctional_Inr[OF assms(2)]
  note k = store_only_fields[OF f(1)]
  have l: "length (cacheStore s1) = length (cacheStore s)"
    using f(2) by (metis length_map)
  have keys: "fst ` set (cacheStore s1) = fst ` set (cacheStore s)"
    using f(2) by (metis set_map)
  have al: "blockAlign (fst e) (blockSize s) = fst e" if "e \<in> set (cacheStore s1)" for e
  proof -
    from that keys obtain e' where "e' \<in> set (cacheStore s)" "fst e' = fst e" by (metis imageE imageI)
    with assms(1) show ?thesis by (auto simp add: FullyAssocCache_store_inv_def)
  qed
  show ?thesis
    using assms(1) l f(2) al k(1,2) unfolding FullyAssocCache_store_inv_def by simp
qed

lemma FullyAssocCache_store_inv_insert:
  assumes inv: "FullyAssocCache_store_inv s" and ins: "FullyAssocCache_insert s p h = Inr s1"
  shows "FullyAssocCache_store_inv s1"
proof -
  note f = FullyAssocCache_insert_Inr[OF ins refl]
  note g = insert_frame_fields[OF f(5)]
  let ?line = "writeDataToBlock p (replicate (blockSize s) 0) (blockSize s)"
  from inv have d: "distinct (map fst (cacheStore s))" and le: "length (cacheStore s) \<le> capacity s"
    and al: "\<forall>e \<in> set (cacheStore s). blockAlign (fst e) (blockSize s) = fst e"
    by (simp_all add: FullyAssocCache_store_inv_def)
  from f(3) have absent: "getAddr p \<notin> fst ` set (cacheStore s)"
    by (simp add: map_of_eq_None_iff)
  have ka: "blockAlign (getAddr p) (blockSize s) = getAddr p"
    using f(2) blockAlign_idem[of "getAddr p" "blockSize s"] by (simp add: getBlockAddr_def)
  have *: "FullyAssocCache_store_inv s1"
    if c: "cacheStore s1 = AList.update (getAddr p) ?line m"
      and dm: "distinct (map fst m)" and sub: "fst ` set m \<subseteq> fst ` set (cacheStore s)"
      and lm: "Suc (length m) \<le> capacity s" for m
  proof -
    from absent sub have "getAddr p \<notin> fst ` set m" by auto
    then have l1: "length (cacheStore s1) = Suc (length m)"
      using c by (simp add: update_length_absent)
    have d1: "distinct (map fst (cacheStore s1))" using c dm by (simp add: distinct_update)
    have a1: "blockAlign (fst e) (blockSize s) = fst e" if "e \<in> set (cacheStore s1)" for e
    proof -
      from that have "fst e \<in> fst ` set (cacheStore s1)" by simp
      then have "fst e \<in> {getAddr p} \<union> fst ` set m" using c by (simp add: dom_update)
      then consider "fst e = getAddr p" | "fst e \<in> fst ` set (cacheStore s)" using sub by blast
      then show ?thesis
      proof cases
        case 1
        with ka show ?thesis by simp
      next
        case 2
        then obtain e' where "e' \<in> set (cacheStore s)" "fst e' = fst e" by (metis imageE)
        with al show ?thesis by metis
      qed
    qed
    show ?thesis
      unfolding FullyAssocCache_store_inv_def using l1 d1 a1 lm g(1,2) by simp
  qed
  show ?thesis
  proof (cases "length (cacheStore s) < capacity s")
    case True
    from f(6)[OF True] have c: "cacheStore s1 = AList.update (getAddr p) ?line (cacheStore s)"
      by simp
    show ?thesis by (rule *[OF c d]) (use True in simp_all)
  next
    case False
    then have full: "capacity s \<le> length (cacheStore s)" by simp
    from f(7)[OF full] obtain block where sv: "select_victim h (cacheStore s) = Inr block"
      and c: "cacheStore s1 =
                AList.update (getAddr p) ?line (AList.delete (fst block) (cacheStore s))"
      by blast
    from select_victim_resident[OF sv] have "fst block \<in> fst ` set (cacheStore s)" by simp
    from delete_length_present[OF this] le
    have lm: "Suc (length (AList.delete (fst block) (cacheStore s))) \<le> capacity s" by simp
    show ?thesis
      by (rule *[OF c distinct_delete[OF d] dom_delete_subset lm])
  qed
qed

lemma FullyAssocCache_store_inv_frame:
  assumes "FullyAssocCache_store_inv s" and "cacheStore s1 = cacheStore s"
    and "capacity s1 = capacity s" and "blockSize s1 = blockSize s"
  shows "FullyAssocCache_store_inv s1"
  using assms by (simp add: FullyAssocCache_store_inv_def)

lemma FullyAssocCache_store_inv_new:
  "FullyAssocCache_store_inv (FullyAssocCache_new blkSize cap n opt)"
  by (simp add: FullyAssocCache_store_inv_def FullyAssocCache_new_def)

lemma FullyAssocCache_reachable_store_inv:
  assumes "run FullyAssocCache_step evs (FullyAssocCache_new blkSize cap n opt) = Inr st"
  shows "FullyAssocCache_store_inv st"
proof (rule run_invariant[OF assms, where I = FullyAssocCache_store_inv])
  show "FullyAssocCache_store_inv (FullyAssocCache_new blkSize cap n opt)"
    by (rule FullyAssocCache_store_inv_new)
next
  fix ev s s1
  assume i: "FullyAssocCache_store_inv s" and "FullyAssocCache_step ev s = Inr s1"
  then have r: "step FullyAssocCache_insert FullyAssocCache_accessFunctional ev s = Inr s1"
    by (simp add: FullyAssocCache_step_def)
  show "FullyAssocCache_store_inv s1"
    by (rule store_inv_step[where P = FullyAssocCache_store_inv and ins = FullyAssocCache_insert
          and accF = FullyAssocCache_accessFunctional, OF i _ _ _ r])
      (erule (1) FullyAssocCache_store_inv_accessFunctional,
        erule (1) FullyAssocCache_store_inv_insert,
        erule (3) FullyAssocCache_store_inv_frame)
qed

lemma resident_cong:
  assumes "map fst xs = map fst ys"
    and "map (\<lambda>e. snd e = None) xs = map (\<lambda>e. snd e = None) ys"
  shows "map fst (filter (\<lambda>e. snd e \<noteq> None) xs) = map fst (filter (\<lambda>e. snd e \<noteq> None) ys)"
  using assms
proof (induction xs arbitrary: ys)
  case Nil
  then show ?case by simp
next
  case (Cons x xs)
  then obtain y ys' where ys: "ys = y # ys'" by (cases ys) auto
  with Cons.prems have "fst x = fst y" "(snd x = None) = (snd y = None)"
    "map fst xs = map fst ys'" "map (\<lambda>e. snd e = None) xs = map (\<lambda>e. snd e = None) ys'"
    by simp_all
  with Cons.IH[of ys'] ys show ?case by (cases "snd x"; cases "snd y") auto
qed

lemma DirectCache_accessFunctional_total:
  assumes "isRead pkt \<or> isWrite pkt" and "capacity st \<noteq> 0"
    and "length (cacheStore st) = capacity st"
  shows "\<not> isl (DirectCache_accessFunctional st pkt)"
proof -
  have "getBlockAddr pkt (blockSize st) mod capacity st < length (cacheStore st)"
    using assms(2,3) by simp
  then have "\<not> length (cacheStore st) \<le> getBlockAddr pkt (blockSize st) mod capacity st"
    by simp
  with assms show ?thesis
    by (auto simp add: DirectCache_accessFunctional_def Let_def split: option.splits)
qed

subsection \<open>The CPU-side port never sends while it holds a parked response\<close>

lemma MemSidePort_sendPacket_not_cpu_panic:
  "MemSidePort_sendPacket st pkt h \<noteq> Inl cpu_send_panic"
  by (simp add: MemSidePort_sendPacket_def cpu_send_panic_def)

lemma sendResponse_returns:
  assumes "controller_inv st" and "blocked st"
    and "cpuPorts s = cpuPorts st" and "waitingPortId s = waitingPortId st"
    and "blocked s = blocked st"
  shows "sendResponse s pkt h \<noteq> Inl e"
proof -
  from assms(1,2) have "0 \<le> waitingPortId st" "waitingPortId st < int (length (cpuPorts st))"
    "blockedPacket (cpuPorts st ! nat (waitingPortId st)) = None"
    by (simp_all add: controller_inv_def)
  with assms(2-5) have "\<exists>s1. sendResponse s pkt h = Inr s1"
    by (intro sendResponse_total) simp_all
  then show ?thesis by auto
qed

lemma accessTiming_not_cpu_panic:
  assumes inv: "controller_inv st" and b: "blocked st"
    and A1: "\<And>s p hit s1 p1. accF s p = Inr (hit, s1, p1) \<Longrightarrow> store_only s s1"
    and B1: "\<And>s p. accF s p \<noteq> Inl cpu_send_panic"
    and s0: "cpuPorts s0 = cpuPorts st" "waitingPortId s0 = waitingPortId st"
      "blocked s0 = blocked st"
  shows "accessTiming accF s0 pkt h \<noteq> Inl cpu_send_panic"
proof (cases "accF s0 pkt")
  case (Inl e)
  with B1[of s0 pkt] show ?thesis by (simp add: accessTiming_def)
next
  case (Inr res)
  obtain hit sa pk where res: "res = (hit, sa, pk)" by (cases res) auto
  note k = store_only_fields[OF A1[OF Inr[unfolded res]]]
  show ?thesis
  proof (cases hit)
    case True
    have "sendResponse (sa\<lparr>hits := hits sa + 1\<rparr>) (makeResponse pk) h \<noteq> Inl cpu_send_panic"
      by (rule sendResponse_returns[OF inv b]) (use k s0 in simp_all)
    with Inr res True show ?thesis by (simp add: accessTiming_def)
  next
    case False
    with Inr res show ?thesis
      using MemSidePort_sendPacket_not_cpu_panic
      by (auto simp add: accessTiming_def Let_def cpu_send_panic_def)
  qed
qed

lemma handleResponse_not_cpu_panic:
  assumes inv: "controller_inv st"
    and A1: "\<And>s p hit s1 p1. accF s p = Inr (hit, s1, p1) \<Longrightarrow> store_only s s1"
    and A2: "\<And>s p h s1. ins s p h = Inr s1 \<Longrightarrow>
               insert_frame s s1 \<and> (parked_request s1 \<longrightarrow> parked_request s)"
    and B1: "\<And>s p. accF s p \<noteq> Inl cpu_send_panic"
    and B2: "\<And>s p h. ins s p h \<noteq> Inl cpu_send_panic"
    and s0: "cpuPorts s0 = cpuPorts st" "waitingPortId s0 = waitingPortId st"
      "blocked s0 = blocked st"
  shows "handleResponse ins accF s0 pkt h \<noteq> Inl cpu_send_panic"
proof (cases "blocked st")
  case False
  with s0 show ?thesis by (simp add: handleResponse_def cpu_send_panic_def)
next
  case b: True
  show ?thesis
  proof (cases "ins s0 pkt h")
    case (Inl e)
    with B2[of s0 pkt h] b s0 show ?thesis by (simp add: handleResponse_def)
  next
    case (Inr s1)
    note g = insert_frame_fields[OF A2[OF Inr, THEN conjunct1]]
    let ?s2 = "s1\<lparr>missLatency := missLatency s1 @ [curTick h - missTime s1]\<rparr>"
    show ?thesis
    proof (cases "originalPacket s1")
      case None
      have "sendResponse ?s2 pkt h \<noteq> Inl cpu_send_panic"
        by (rule sendResponse_returns[OF inv b]) (use g s0 in simp_all)
      with Inr None b s0 show ?thesis
        by (auto simp add: handleResponse_def Let_def split: sum.splits)
    next
      case (Some orig)
      show ?thesis
      proof (cases "accF ?s2 orig")
        case (Inl e)
        with B1[of ?s2 orig] Inr Some b s0 show ?thesis
          by (simp add: handleResponse_def Let_def)
      next
        case r: (Inr res)
        obtain hit s3 o1 where res: "res = (hit, s3, o1)" by (cases res) auto
        note k = store_only_fields[OF A1[OF r[unfolded res]]]
        have "sendResponse (s3\<lparr>originalPacket := None\<rparr>) (makeResponse o1) h \<noteq>
            Inl cpu_send_panic"
          by (rule sendResponse_returns[OF inv b]) (use g k s0 in simp_all)
        with Inr Some b s0 r res show ?thesis
          by (auto simp add: handleResponse_def Let_def cpu_send_panic_def split: sum.splits)
      qed
    qed
  qed
qed

lemma step_not_cpu_panic:
  assumes inv: "controller_inv st"
    and A1: "\<And>s p hit s1 p1. accF s p = Inr (hit, s1, p1) \<Longrightarrow> store_only s s1"
    and A2: "\<And>s p h s1. ins s p h = Inr s1 \<Longrightarrow>
               insert_frame s s1 \<and> (parked_request s1 \<longrightarrow> parked_request s)"
    and B1: "\<And>s p. accF s p \<noteq> Inl cpu_send_panic"
    and B2: "\<And>s p h. ins s p h \<noteq> Inl cpu_send_panic"
  shows "step ins accF ev st \<noteq> Inl cpu_send_panic"
proof (cases ev)
  case (RecvTimingReq i pkt)
  then show ?thesis
    by (auto simp add: step_def recvTimingReq_def handleRequest_def Let_def cpu_send_panic_def
        split: sum.splits if_splits)
next
  case (AccessEvent h)
  show ?thesis
  proof (cases "accessEvents st")
    case Nil
    with AccessEvent show ?thesis by (simp add: step_def cpu_send_panic_def)
  next
    case (Cons pkt evs)
    with inv have b: "blocked st" by (auto simp add: controller_inv_def)
    have "accessTiming accF (st\<lparr>accessEvents := evs\<rparr>) pkt h \<noteq> Inl cpu_send_panic"
      by (rule accessTiming_not_cpu_panic[OF inv b A1 B1]) simp_all
    with AccessEvent Cons show ?thesis by (auto simp add: step_def split: sum.splits)
  qed
next
  case (RecvTimingResp payload h)
  show ?thesis
  proof (cases "outstanding st")
    case None
    with RecvTimingResp show ?thesis by (simp add: step_def cpu_send_panic_def)
  next
    case (Some q)
    have "handleResponse ins accF (st\<lparr>outstanding := None\<rparr>) (response_to q payload) h \<noteq>
        Inl cpu_send_panic"
      by (rule handleResponse_not_cpu_panic[OF inv A1 A2 B1 B2]) simp_all
    with RecvTimingResp Some show ?thesis
      by (auto simp add: step_def recvTimingResp_def cpu_send_panic_def split: sum.splits)
  qed
next
  case (RecvReqRetry h)
  then show ?thesis
    using MemSidePort_sendPacket_not_cpu_panic
    by (auto simp add: step_def recvReqRetry_def cpu_send_panic_def
        split: option.splits sum.splits)
next
  case (RecvRespRetry i h)
  then show ?thesis
    by (auto simp add: step_def recvRespRetry_def CPUSidePort_sendPacket_def Let_def
        cpu_send_panic_def split: option.splits sum.splits if_splits)
next
  case (RecvFunctional i pkt)
  with B1[of st pkt] show ?thesis
    by (auto simp add: step_def recvFunctional_def handleFunctional_def split: sum.splits)
qed

lemma DirectCache_not_cpu_panic:
  "DirectCache_accessFunctional s p \<noteq> Inl cpu_send_panic"
  "DirectCache_insert s p h \<noteq> Inl cpu_send_panic"
  by (auto simp add: DirectCache_accessFunctional_def DirectCache_insert_def Let_def
      MemSidePort_sendPacket_def cpu_send_panic_def split: option.splits if_splits)

lemma DirectCache_cpu_side_never_sends_while_parked:
  "run DirectCache_step evs (DirectCache_new blkSize cap n) \<noteq> Inl cpu_send_panic"
proof -
  have "run DirectCache_step evs st \<noteq> Inl cpu_send_panic" if "controller_inv st" for st
    using that
  proof (induction evs arbitrary: st)
    case Nil
    then show ?case by simp
  next
    case (Cons ev evs)
    have n: "step DirectCache_insert DirectCache_accessFunctional ev st \<noteq> Inl cpu_send_panic"
      by (rule step_not_cpu_panic[OF Cons.prems])
        (erule DirectCache_A1, erule DirectCache_A2, rule DirectCache_not_cpu_panic,
          rule DirectCache_not_cpu_panic)
    show ?case
    proof (cases "DirectCache_step ev st")
      case (Inl e)
      with n show ?thesis by (simp add: DirectCache_step_def)
    next
      case (Inr s1)
      then have "step DirectCache_insert DirectCache_accessFunctional ev st = Inr s1"
        by (simp add: DirectCache_step_def)
      from controller_inv_step[where ins = DirectCache_insert
          and accF = DirectCache_accessFunctional, OF Cons.prems _ _ this]
      have "controller_inv s1" using DirectCache_A1 DirectCache_A2 by blast
      from Cons.IH[OF this] Inr show ?thesis by simp
    qed
  qed
  from this[OF controller_inv_new(1)] show ?thesis .
qed

subsection \<open>The slot of a block in DirectCache\<close>

text \<open>
  C1. The specification places a block in slot (block_addr / blockSize) mod N, so
  that with blockSize = 64 and N = 2 the blocks 0x00 and 0x80 share a slot and
  0x40 has the other one. The code takes block_addr mod N on the byte address of
  the block. In a cache of two 64-byte slots the block 0x40 is installed in slot
  0, slot 1 stays empty, a read in block 0x40 hits there, and installing block
  0x00 next evicts it: the writeback of 0x40 goes downstream and slot 1 is
  still empty. In a store that held block 0x40 in slot 1, where the claim puts
  it, a read in block 0x40 would miss: the probe looks at slot 0.
\<close>

theorem C1_block_0x40_lands_in_slot_0:
  "(case DirectCache_insert (DirectCache_new 64 2 1) (block_response 0x40 64) host_accepts of
      Inl e \<Rightarrow> False
    | Inr s1 \<Rightarrow>
        cacheStore s1 = [(0x40, Some (replicate 64 0)), (0, None)] \<and>
        sent s1 = [] \<and>
        DirectCache_accessFunctional s1 (read_request 0x44 4) =
          Inr (True, s1, (read_request 0x44 4)\<lparr>data := [0, 0, 0, 0]\<rparr>) \<and>
        (case DirectCache_insert s1 (block_response 0 64) host_accepts of
           Inl e \<Rightarrow> False
         | Inr s2 \<Rightarrow>
             cacheStore s2 = [(0, Some (replicate 64 0)), (0, None)] \<and>
             sent s2 = [SendTimingReq (writeback_of 0x40 64 (replicate 64 0)) True])) \<and>
   DirectCache_accessFunctional
      ((DirectCache_new 64 2 1)\<lparr>cacheStore := [(0, None), (0x40, Some (replicate 64 0))]\<rparr>)
      (read_request 0x44 4) =
     Inr (False,
          (DirectCache_new 64 2 1)\<lparr>cacheStore := [(0, None), (0x40, Some (replicate 64 0))]\<rparr>,
          read_request 0x44 4)"
  by code_simp

subsection \<open>Accepting and refusing a timing request\<close>

text \<open>
  C8. On a port of the cache, in a state where blocked holds exactly when a port
  is waiting: recvTimingReq returns false and sets needRetry of the port when
  the port holds a parked packet, when needRetry is already set, or when the
  controller is blocked, and then nothing else of the state changes (blocked,
  waitingPortId, originalPacket, the statistics, the store and the scheduled
  events are those of before). Otherwise it returns true; the controller is then
  blocked on this port and the access event of the packet is scheduled.
\<close>

theorem C8_recvTimingReq:
  assumes "i < length (cpuPorts st)"
    and "blocked st \<longleftrightarrow> waitingPortId st \<noteq> -1"
  shows "recvTimingReq st i pkt =
     (if blockedPacket (cpuPorts st ! i) \<noteq> None \<or> needRetry (cpuPorts st ! i) \<or> blocked st
      then Inr (False, st\<lparr>cpuPorts := (cpuPorts st)[i := (cpuPorts st ! i)\<lparr>needRetry := True\<rparr>]\<rparr>)
      else Inr (True, st\<lparr>blocked := True, waitingPortId := int i,
                         accessEvents := accessEvents st @ [pkt]\<rparr>))"
  using assms by (simp add: recvTimingReq_def handleRequest_def Let_def)

theorem C8_recvTimingReq_witness:
  "0 < length (cpuPorts (DirectCache_new 64 2 1)) \<and>
   (blocked (DirectCache_new 64 2 1) \<longleftrightarrow> waitingPortId (DirectCache_new 64 2 1) \<noteq> -1) \<and>
   recvTimingReq (DirectCache_new 64 2 1) 0 (read_request 0x42 2) =
     Inr (True, (DirectCache_new 64 2 1)\<lparr>blocked := True, waitingPortId := 0,
                   accessEvents := [read_request 0x42 2]\<rparr>) \<and>
   recvTimingReq ((DirectCache_new 64 2 1)\<lparr>blocked := True, waitingPortId := 0\<rparr>) 0
       (read_request 0x42 2) =
     Inr (False, (DirectCache_new 64 2 1)\<lparr>blocked := True, waitingPortId := 0,
                   cpuPorts := [\<lparr>needRetry = True, blockedPacket = None\<rparr>]\<rparr>)"
  using C8_recvTimingReq[of 0 "DirectCache_new 64 2 1" "read_request 0x42 2"]
    C8_recvTimingReq[of 0 "(DirectCache_new 64 2 1)\<lparr>blocked := True, waitingPortId := 0\<rparr>"
      "read_request 0x42 2"]
  by (simp add: DirectCache_new_def)

subsection \<open>A sub-block miss is upgraded to a block-sized read\<close>

text \<open>
  C3. A timing access that misses, that is not both block-aligned and of exactly
  blockSize bytes, and that fits in one block: when accessTiming completes, it
  has incremented misses, recorded the tick as the start of the miss, saved the
  packet in originalPacket, and handed to the memory-side port a new packet with
  command ReadReq, of blockSize bytes, at a block-aligned address, on the
  request of the original packet; and nothing else of the state has changed. It
  completes when the packet is a read or a write that needs a response and the
  memory-side port holds no parked packet. (A miss of either store returns the
  state and the packet as they were, which is the first hypothesis.)
\<close>

theorem C3_sub_block_miss_is_upgraded:
  assumes miss: "accF st pkt = Inr (False, st, pkt)"
    and sub: "\<not> (getAddr pkt = getBlockAddr pkt (blockSize st) \<and> getSize pkt = blockSize st)"
    and fits: "getAddr pkt - getBlockAddr pkt (blockSize st) + getSize pkt \<le> blockSize st"
    and new: "new_pkt = allocate (Packet_blk (req pkt) ReadReq (blockSize st))"
    and after: "st2 = st\<lparr>misses := misses st + 1, missTime := curTick h,
                         originalPacket := Some pkt,
                         memPort := \<lparr>memBlockedPacket = (if reqAccepted h then None else Some new_pkt)\<rparr>,
                         sent := sent st @ [SendTimingReq new_pkt (reqAccepted h)]\<rparr>"
  shows "(needsResponse pkt \<and> (isRead pkt \<or> isWrite pkt) \<and> memBlockedPacket (memPort st) = None
            \<longrightarrow> accessTiming accF st pkt h = Inr st2) \<and>
         (\<forall>st'. accessTiming accF st pkt h = Inr st' \<longrightarrow> st' = st2) \<and>
         cmd new_pkt = ReadReq \<and> getSize new_pkt = blockSize st \<and>
         getAddr new_pkt = getBlockAddr new_pkt (blockSize st) \<and>
         req new_pkt = req pkt \<and> new_pkt \<noteq> pkt"
proof -
  have al: "getAddr new_pkt = getBlockAddr new_pkt (blockSize st)"
    using Packet_blk_aligned[of "req pkt" ReadReq "blockSize st"] new by simp
  have fields: "cmd new_pkt = ReadReq" "getSize new_pkt = blockSize st" "req new_pkt = req pkt"
    using new by (simp_all add: allocate_def Packet_blk_def)
  have ne: "new_pkt \<noteq> pkt"
    using sub al fields by auto
  have a: "accessTiming accF st pkt h = Inr st2"
    if "needsResponse pkt" "isRead pkt \<or> isWrite pkt" "memBlockedPacket (memPort st) = None"
    using that miss sub fits al new after
    by (auto simp add: accessTiming_def Let_def MemSidePort_sendPacket_def)
  have b: "st' = st2" if "accessTiming accF st pkt h = Inr st'" for st'
    using that
  proof (cases rule: accessTiming_cases)
    case (hit st1 pkt1)
    with miss show ?thesis by simp
  next
    case (forward st1 pkt1)
    with miss sub show ?thesis by simp
  next
    case (upgrade st1 pkt1)
    with miss have e: "st1 = st" "pkt1 = pkt" by simp_all
    from MemSidePort_sendPacket_Inr(2)[OF upgrade(6)] e new after show ?thesis by simp
  qed
  from a b al fields ne show ?thesis by blast
qed

theorem C3_sub_block_miss_is_upgraded_witness:
  "DirectCache_accessFunctional
      ((DirectCache_new 64 2 1)\<lparr>blocked := True, waitingPortId := 0\<rparr>) (read_request 0x42 2) =
     Inr (False, (DirectCache_new 64 2 1)\<lparr>blocked := True, waitingPortId := 0\<rparr>, read_request 0x42 2) \<and>
   getAddr (read_request 0x42 2) \<noteq> getBlockAddr (read_request 0x42 2) 64 \<and>
   getAddr (read_request 0x42 2) - getBlockAddr (read_request 0x42 2) 64 +
     getSize (read_request 0x42 2) \<le> 64 \<and>
   accessTiming DirectCache_accessFunctional
      ((DirectCache_new 64 2 1)\<lparr>blocked := True, waitingPortId := 0\<rparr>) (read_request 0x42 2)
      host_accepts =
     Inr ((DirectCache_new 64 2 1)\<lparr>blocked := True, waitingPortId := 0, misses := 1,
            originalPacket := Some (read_request 0x42 2),
            sent := [SendTimingReq
                       (allocate (Packet_blk (Request_new 0x42 2 0 0) ReadReq 64)) True]\<rparr>)"
proof -
  let ?s = "(DirectCache_new 64 2 1)\<lparr>blocked := True, waitingPortId := 0\<rparr>"
  let ?p = "read_request 0x42 2"
  have bs: "blockSize ?s = 64" by (simp add: DirectCache_new_def)
  have miss: "DirectCache_accessFunctional ?s ?p = Inr (False, ?s, ?p)" by code_simp
  have ne: "getAddr ?p \<noteq> getBlockAddr ?p 64" by code_simp
  then have sub: "\<not> (getAddr ?p = getBlockAddr ?p (blockSize ?s) \<and> getSize ?p = blockSize ?s)"
    using bs by simp
  have fits0: "getAddr ?p - getBlockAddr ?p 64 + getSize ?p \<le> 64" by code_simp
  then have fits: "getAddr ?p - getBlockAddr ?p (blockSize ?s) + getSize ?p \<le> blockSize ?s"
    using bs by simp
  have pre: "needsResponse ?p \<and> (isRead ?p \<or> isWrite ?p) \<and> memBlockedPacket (memPort ?s) = None"
    by code_simp
  from C3_sub_block_miss_is_upgraded[where h = host_accepts and accF = DirectCache_accessFunctional and st = "?s" and pkt = "?p", OF miss sub fits refl refl] pre
  have "accessTiming DirectCache_accessFunctional ?s ?p host_accepts =
      Inr (?s\<lparr>misses := misses ?s + 1, missTime := curTick host_accepts,
            originalPacket := Some ?p,
            memPort := \<lparr>memBlockedPacket =
               (if reqAccepted host_accepts then None
                else Some (allocate (Packet_blk (req ?p) ReadReq (blockSize ?s))))\<rparr>,
            sent := sent ?s @ [SendTimingReq (allocate (Packet_blk (req ?p) ReadReq (blockSize ?s)))
                       (reqAccepted host_accepts)]\<rparr>)"
    by blast
  then have "accessTiming DirectCache_accessFunctional ?s ?p host_accepts =
     Inr ((DirectCache_new 64 2 1)\<lparr>blocked := True, waitingPortId := 0, misses := 1,
            originalPacket := Some (read_request 0x42 2),
            sent := [SendTimingReq
                       (allocate (Packet_blk (Request_new 0x42 2 0 0) ReadReq 64)) True]\<rparr>)"
    by (simp add: DirectCache_new_def host_accepts_def read_request_def Packet_new_def allocate_def)
  with miss ne fits0 show ?thesis by blast
qed

subsection \<open>The replay of the original packet hits\<close>

text \<open>
  C5. A response is handled while originalPacket holds a packet; the response
  is on the request of that packet, block-sized and block-aligned, and both
  packets lie in the block of their request. Then, whenever insert installs the
  block of the response, the functional replay of the original packet (a read
  or a write) on the state handleResponse replays it on is a hit; and
  handleResponse never ends in the panic "Should always hit after inserting".
\<close>

theorem C5_replay_hits_after_insert:
  assumes orig: "originalPacket st = Some orig"
    and same_req: "req pkt = req orig"
    and block_sized: "getSize pkt = blockSize st"
    and aligned: "getAddr pkt = getBlockAddr pkt (blockSize st)"
    and wf_pkt: "within_request_block pkt (blockSize st)"
    and wf_orig: "within_request_block orig (blockSize st)"
  shows "(isRead orig \<or> isWrite orig \<longrightarrow>
            (\<forall>st1. DirectCache_insert st pkt h = Inr st1 \<longrightarrow>
               (\<exists>st3 orig1. DirectCache_accessFunctional
                    (st1\<lparr>missLatency := missLatency st1 @ [curTick h - missTime st1]\<rparr>) orig =
                  Inr (True, st3, orig1)))) \<and>
         handleResponse DirectCache_insert DirectCache_accessFunctional st pkt h \<noteq>
           Inl (Panic ''handleResponse'' ''Should always hit after inserting'')"
proof -
  have same: "getBlockAddr orig (blockSize st) = getBlockAddr pkt (blockSize st)"
    using wf_pkt wf_orig same_req by (simp add: within_request_block_def)
  have a: "\<exists>st3 orig1. DirectCache_accessFunctional
                    (st1\<lparr>missLatency := missLatency st1 @ [curTick h - missTime st1]\<rparr>) orig =
                  Inr (True, st3, orig1)"
    if "isRead orig \<or> isWrite orig" "DirectCache_insert st pkt h = Inr st1" for st1
    using DirectCache_replay_hits[OF that(2) same that(1)] by blast
  have b: "handleResponse DirectCache_insert DirectCache_accessFunctional st pkt h \<noteq>
           Inl (Panic ''handleResponse'' ''Should always hit after inserting'')"
  proof
    assume p: "handleResponse DirectCache_insert DirectCache_accessFunctional st pkt h =
           Inl (Panic ''handleResponse'' ''Should always hit after inserting'')"
    show False
    proof (cases "DirectCache_insert st pkt h")
      case (Inl e)
      then have "e = Panic ''handleResponse'' ''Should always hit after inserting''"
        using p by (simp add: handleResponse_def split: if_splits)
      with Inl show False
        by (auto simp add: DirectCache_insert_def Let_def MemSidePort_sendPacket_def
            split: if_splits option.splits)
    next
      case (Inr st1)
      note f = DirectCache_insert_Inr[OF Inr refl]
      have o: "originalPacket st1 = Some orig" using insert_frame_fields(4)[OF f(7)] orig by simp
      let ?st2 = "st1\<lparr>missLatency := missLatency st1 @ [curTick h - missTime st1]\<rparr>"
      show False
      proof (cases "DirectCache_accessFunctional ?st2 orig")
        case (Inl e)
        then have "e = Panic ''handleResponse'' ''Should always hit after inserting''"
          using p Inr o by (simp add: handleResponse_def Let_def split: if_splits)
        with Inl show False
          by (auto simp add: DirectCache_accessFunctional_def Let_def
              split: if_splits option.splits)
      next
        case r: (Inr res)
        obtain hit st3 orig1 where res: "res = (hit, st3, orig1)" by (cases res) auto
        have "hit" using DirectCache_replay_no_miss[OF Inr same] r res by (cases hit) auto
        with p Inr o r res show False
          by (auto simp add: handleResponse_def Let_def sendResponse_def
              CPUSidePort_sendPacket_def split: if_splits sum.splits)
      qed
    qed
  qed
  from a b show ?thesis by blast
qed

theorem C5_replay_hits_after_insert_witness:
  "originalPacket DirectCache_after_miss = Some (read_request 0x42 2) \<and>
   req upgrade_response = req (read_request 0x42 2) \<and>
   getSize upgrade_response = blockSize DirectCache_after_miss \<and>
   getAddr upgrade_response = getBlockAddr upgrade_response (blockSize DirectCache_after_miss) \<and>
   within_request_block upgrade_response (blockSize DirectCache_after_miss) \<and>
   within_request_block (read_request 0x42 2) (blockSize DirectCache_after_miss) \<and>
   isRead (read_request 0x42 2) \<and>
   (\<exists>st1. DirectCache_insert DirectCache_after_miss upgrade_response host_accepts = Inr st1 \<and>
      (\<exists>st3 orig1. DirectCache_accessFunctional
           (st1\<lparr>missLatency := missLatency st1 @ [curTick host_accepts - missTime st1]\<rparr>)
           (read_request 0x42 2) = Inr (True, st3, orig1))) \<and>
   handleResponse DirectCache_insert DirectCache_accessFunctional DirectCache_after_miss
       upgrade_response host_accepts \<noteq>
     Inl (Panic ''handleResponse'' ''Should always hit after inserting'')"
proof -
  have h1: "originalPacket DirectCache_after_miss = Some (read_request 0x42 2)" by code_simp
  have h2: "req upgrade_response = req (read_request 0x42 2)" by code_simp
  have h3: "getSize upgrade_response = blockSize DirectCache_after_miss" by code_simp
  have h4: "getAddr upgrade_response =
      getBlockAddr upgrade_response (blockSize DirectCache_after_miss)" by code_simp
  have h5: "within_request_block upgrade_response (blockSize DirectCache_after_miss)"
    by code_simp
  have h6: "within_request_block (read_request 0x42 2) (blockSize DirectCache_after_miss)"
    by code_simp
  have h7: "isRead (read_request 0x42 2)" by code_simp
  have "\<not> isl (DirectCache_insert DirectCache_after_miss upgrade_response host_accepts)"
    by code_simp
  then obtain st1 where
    ins: "DirectCache_insert DirectCache_after_miss upgrade_response host_accepts = Inr st1"
    by (cases "DirectCache_insert DirectCache_after_miss upgrade_response host_accepts") auto
  from C5_replay_hits_after_insert[OF h1 h2 h3 h4 h5 h6, of host_accepts] h7 ins
  have "(\<exists>st3 orig1. DirectCache_accessFunctional
           (st1\<lparr>missLatency := missLatency st1 @ [curTick host_accepts - missTime st1]\<rparr>)
           (read_request 0x42 2) = Inr (True, st3, orig1))"
    and "handleResponse DirectCache_insert DirectCache_accessFunctional DirectCache_after_miss
       upgrade_response host_accepts \<noteq>
     Inl (Panic ''handleResponse'' ''Should always hit after inserting'')"
    by blast+
  with h1 h2 h3 h4 h5 h6 h7 ins show ?thesis by blast
qed

subsection \<open>A response from the memory side is never refused\<close>

text \<open>
  C10. handleResponse, and with it recvTimingResp of the memory-side port, never
  returns false, whatever the store, the state and the packet: the interface
  allows a refusal, the cache never uses it. And it does return true, in
  DirectCache and in FullyAssocCache, for a response the state awaits (the
  asserts and panics on the way do not fire).
\<close>

theorem C10_response_is_never_refused:
  "handleResponse ins accF st pkt h \<noteq> Inr (False, st1) \<and>
   recvTimingResp ins accF st pkt h \<noteq> Inr (False, st1) \<and>
   (DirectCache_awaits dc dpkt \<longrightarrow>
      (\<exists>st2. recvTimingResp DirectCache_insert DirectCache_accessFunctional dc dpkt h =
                Inr (True, st2))) \<and>
   (FullyAssocCache_awaits fa fpkt h \<longrightarrow>
      (\<exists>st2. recvTimingResp FullyAssocCache_insert FullyAssocCache_accessFunctional fa fpkt h =
                Inr (True, st2)))"
  using handleResponse_never_false[of ins accF st pkt h st1]
    DirectCache_handleResponse_total[of dc dpkt h]
    FullyAssocCache_handleResponse_total[of fa fpkt h]
  by (simp add: recvTimingResp_def)

theorem C10_response_is_never_refused_witness:
  "DirectCache_awaits DirectCache_after_miss upgrade_response \<and>
   FullyAssocCache_awaits FullyAssocCache_after_miss upgrade_response host_accepts \<and>
   (\<exists>st2. recvTimingResp DirectCache_insert DirectCache_accessFunctional
             DirectCache_after_miss upgrade_response host_accepts = Inr (True, st2)) \<and>
   (\<exists>st2. recvTimingResp FullyAssocCache_insert FullyAssocCache_accessFunctional
             FullyAssocCache_after_miss upgrade_response host_accepts = Inr (True, st2))"
proof -
  have a: "DirectCache_awaits DirectCache_after_miss upgrade_response" by code_simp
  have b: "FullyAssocCache_awaits FullyAssocCache_after_miss upgrade_response host_accepts"
    by code_simp
  from a b C10_response_is_never_refused[where dc = DirectCache_after_miss
      and dpkt = upgrade_response and fa = FullyAssocCache_after_miss
      and fpkt = upgrade_response and h = host_accepts]
  show ?thesis by blast
qed

subsection \<open>Read after write within a resident block\<close>

text \<open>
  C2. In DirectCache, let the block of the address a be resident with a full
  line, and let an access of s bytes at a lie within the block. A read of s
  bytes at a returns the s bytes of the line at offset a - blockAddr(a). A write
  of the s bytes v at a hits and replaces exactly those bytes of the line. And
  after the write, whatever accesses follow that are not to this block and do
  not replace the line of its slot (functional accesses to other blocks,
  installations in other slots), a read of s bytes at a hits and returns v.
\<close>

theorem C2_read_after_write:
  assumes cap: "capacity st \<noteq> 0"
    and b: "b = blockAlign a (blockSize st)"
    and idx: "idx = b mod capacity st"
    and len: "idx < length (cacheStore st)"
    and resident: "cacheStore st ! idx = (b, Some line)"
    and full: "length line = blockSize st"
    and within: "a - b + s \<le> blockSize st"
    and w: "isWrite w" "getAddr w = a" "getSize w = s" "data w = v" "length v = s"
    and r: "isRead r" "getAddr r = a" "getSize r = s"
    and others: "\<forall>x \<in> set ops. leaves_block b (blockSize st) (capacity st) x"
  shows "DirectCache_accessFunctional st r =
           Inr (True, st, r\<lparr>data := take s (drop (a - b) line)\<rparr>) \<and>
         (\<exists>st1. DirectCache_accessFunctional st w = Inr (True, st1, w) \<and>
            cacheStore st1 ! idx = (b, Some (take (a - b) line @ v @ drop (a - b + s) line)) \<and>
            (\<forall>st2. DirectCache_apply st1 ops = Inr st2 \<longrightarrow>
               DirectCache_accessFunctional st2 r = Inr (True, st2, r\<lparr>data := v\<rparr>)))"
proof -
  have rb: "getBlockAddr r (blockSize st) = b" and wb: "getBlockAddr w (blockSize st) = b"
    using b w r by (simp_all add: getBlockAddr_def)
  have ro: "getOffset r (blockSize st) = a - b" and wo: "getOffset w (blockSize st) = a - b"
    using rb wb w r by (simp_all add: getOffset_def)
  have nw: "\<not> isWrite r" using r(1) by (auto simp add: isRead_def isWrite_def)
  have rd: "DirectCache_accessFunctional st' r =
           Inr (True, st', r\<lparr>data := take s (drop (a - b) l)\<rparr>)"
    if "blockSize st' = blockSize st" "capacity st' = capacity st"
      "idx < length (cacheStore st')" "cacheStore st' ! idx = (b, Some l)" for st' l
    using that cap idx rb ro r nw
    by (simp add: DirectCache_accessFunctional_def Let_def setDataFromBlock_def)
  let ?line1 = "take (a - b) line @ v @ drop (a - b + s) line"
  let ?st1 = "st\<lparr>cacheStore := (cacheStore st)[idx := (b, Some ?line1)]\<rparr>"
  have wr: "DirectCache_accessFunctional st w = Inr (True, ?st1, w)"
    using cap idx len resident wb wo w
    by (simp add: DirectCache_accessFunctional_def Let_def writeDataToBlock_def)
  have slot1: "cacheStore ?st1 ! idx = (b, Some ?line1)" using len by simp
  have roundtrip: "take s (drop (a - b) ?line1) = v"
    using within full w(5) by simp
  have later: "DirectCache_accessFunctional st2 r = Inr (True, st2, r\<lparr>data := v\<rparr>)"
    if "DirectCache_apply ?st1 ops = Inr st2" for st2
  proof -
    have "blockSize st2 = blockSize ?st1 \<and> capacity st2 = capacity ?st1 \<and>
         length (cacheStore st2) = length (cacheStore ?st1) \<and>
         cacheStore st2 ! idx = cacheStore ?st1 ! idx"
      by (rule DirectCache_apply_leaves[OF that, where b = b and l = ?line1])
        (use others slot1 len idx in simp_all)
    then have "DirectCache_accessFunctional st2 r =
           Inr (True, st2, r\<lparr>data := take s (drop (a - b) ?line1)\<rparr>)"
      using len by (intro rd) simp_all
    with roundtrip show ?thesis by simp
  qed
  from rd[of st line] len resident wr slot1 later show ?thesis by auto
qed

theorem C2_read_after_write_witness:
  "capacity DirectCache_holding_0x40 \<noteq> 0 \<and>
   0x40 = blockAlign 0x44 (blockSize DirectCache_holding_0x40) \<and>
   0 = 0x40 mod capacity DirectCache_holding_0x40 \<and>
   0 < length (cacheStore DirectCache_holding_0x40) \<and>
   cacheStore DirectCache_holding_0x40 ! 0 = (0x40, Some (replicate 64 0)) \<and>
   length (replicate 64 (0 :: byte)) = blockSize DirectCache_holding_0x40 \<and>
   0x44 - 0x40 + 4 \<le> blockSize DirectCache_holding_0x40 \<and>
   isWrite (write_request 0x44 [1, 2, 3, 4]) \<and> isRead (read_request 0x44 4) \<and>
   leaves_block 0x40 (blockSize DirectCache_holding_0x40) (capacity DirectCache_holding_0x40)
     (Functional (write_request 0x80 [9, 9])) \<and>
   DirectCache_accessFunctional DirectCache_holding_0x40 (read_request 0x44 4) =
     Inr (True, DirectCache_holding_0x40, (read_request 0x44 4)\<lparr>data := [0, 0, 0, 0]\<rparr>) \<and>
   (\<exists>st1 st2.
      DirectCache_accessFunctional DirectCache_holding_0x40 (write_request 0x44 [1, 2, 3, 4]) =
        Inr (True, st1, write_request 0x44 [1, 2, 3, 4]) \<and>
      cacheStore st1 ! 0 = (0x40, Some (replicate 4 0 @ [1, 2, 3, 4] @ replicate 56 0)) \<and>
      DirectCache_apply st1 [Functional (write_request 0x80 [9, 9])] = Inr st2 \<and>
      DirectCache_accessFunctional st2 (read_request 0x44 4) =
        Inr (True, st2, (read_request 0x44 4)\<lparr>data := [1, 2, 3, 4]\<rparr>))"
proof -
  let ?st = DirectCache_holding_0x40
  let ?w = "write_request 0x44 [1, 2, 3, 4]"
  let ?r = "read_request 0x44 4"
  let ?ops = "[Functional (write_request 0x80 [9, 9])]"
  have h1: "capacity ?st \<noteq> 0" by code_simp
  have h2: "0x40 = blockAlign 0x44 (blockSize ?st)" by code_simp
  have h3: "0 = 0x40 mod capacity ?st" by code_simp
  have h4: "0 < length (cacheStore ?st)" by code_simp
  have h5: "cacheStore ?st ! 0 = (0x40, Some (replicate 64 0))" by code_simp
  have h6: "length (replicate 64 (0 :: byte)) = blockSize ?st" by code_simp
  have h7: "0x44 - 0x40 + 4 \<le> blockSize ?st" by code_simp
  have h8: "isWrite ?w" "getAddr ?w = 0x44" "getSize ?w = 4" "data ?w = [1, 2, 3, 4]"
    "length [1, 2, 3, 4 :: byte] = 4" by code_simp+
  have h9: "isRead ?r" "getAddr ?r = 0x44" "getSize ?r = 4" by code_simp+
  have h10: "leaves_block 0x40 (blockSize ?st) (capacity ?st) (Functional (write_request 0x80 [9, 9]))"
    by code_simp
  then have h11: "\<forall>x \<in> set ?ops. leaves_block 0x40 (blockSize ?st) (capacity ?st) x" by simp
  note t = C2_read_after_write[OF h1 h2 h3 h4 h5 h6 h7 h8 h9 h11]
  from t obtain st1 where
    a: "DirectCache_accessFunctional ?st ?w = Inr (True, st1, ?w)"
    and b: "cacheStore st1 ! 0 =
       (0x40, Some (take (0x44 - 0x40) (replicate 64 0) @ [1, 2, 3, 4] @
                    drop (0x44 - 0x40 + 4) (replicate 64 0)))"
    and c: "\<forall>st2. DirectCache_apply st1 ?ops = Inr st2 \<longrightarrow>
               DirectCache_accessFunctional st2 ?r = Inr (True, st2, ?r\<lparr>data := [1, 2, 3, 4]\<rparr>)"
    by blast
  have b': "cacheStore st1 ! 0 = (0x40, Some (replicate 4 0 @ [1, 2, 3, 4] @ replicate 56 0))"
    using b by simp
  have "\<not> isl (case DirectCache_accessFunctional ?st ?w of Inl e \<Rightarrow> Inl e
                | Inr (hit, s1, p1) \<Rightarrow> DirectCache_apply s1 ?ops)"
    by code_simp
  with a obtain st2 where d: "DirectCache_apply st1 ?ops = Inr st2"
    by (cases "DirectCache_apply st1 ?ops") auto
  from c d have e: "DirectCache_accessFunctional st2 ?r = Inr (True, st2, ?r\<lparr>data := [1, 2, 3, 4]\<rparr>)"
    by blast
  have f: "DirectCache_accessFunctional ?st ?r = Inr (True, ?st, ?r\<lparr>data := [0, 0, 0, 0]\<rparr>)"
    using t by (simp add: numeral_eq_Suc)
  from h1 h2 h3 h4 h5 h6 h7 h8(1) h9(1) h10 f a b' d e show ?thesis by blast
qed

subsection \<open>Every eviction writes the victim back\<close>

text \<open>
  C4. Whenever insert of DirectCache completes on a slot that holds a line, the
  tag of that line differs from the new one, and insert has handed to the
  memory-side port, on the state whose store is still the old one, a packet
  with command WritebackDirty, of blockSize bytes, on a request at the tag of
  the victim, carrying the buffer of the victim; the new line is installed on
  the state that send returns. Whenever insert of FullyAssocCache completes
  with at least capacity resident lines, the same holds of the resident line
  that the random selection picked, which is erased before the new line is
  installed. The address of the writeback is the block address of the tag,
  which is the tag itself for the tags a cache stores (they are block
  addresses). Nothing in the statement depends on whether the victim was ever
  written: the line has no dirty flag. Both inserts do complete under the
  conditions their asserts state, with a free memory-side port, and the
  selection loop ends for draws that reach the bucket of a resident line.
\<close>

theorem C4_writeback_on_eviction:
  "(\<forall>st1 tag victim.
      cacheStore dc ! (getBlockAddr pkt (blockSize dc) mod capacity dc) = (tag, Some victim) \<and>
      DirectCache_insert dc pkt h = Inr st1 \<longrightarrow>
      tag \<noteq> getBlockAddr pkt (blockSize dc) \<and>
      sent st1 = sent dc @
        [SendTimingReq (writeback_of tag (blockSize dc) victim) (reqAccepted h)] \<and>
      (\<exists>stm. MemSidePort_sendPacket dc (writeback_of tag (blockSize dc) victim) h = Inr stm \<and>
         cacheStore stm = cacheStore dc \<and>
         st1 = stm\<lparr>cacheStore := (cacheStore stm)
                 [getBlockAddr pkt (blockSize dc) mod capacity dc :=
                    (getBlockAddr pkt (blockSize dc),
                     Some (writeDataToBlock pkt (replicate (blockSize dc) 0) (blockSize dc)))]\<rparr>)) \<and>
   (\<forall>st1.
      capacity fa \<le> length (cacheStore fa) \<and> FullyAssocCache_insert fa pkt h = Inr st1 \<longrightarrow>
      (\<exists>block stm.
         select_victim h (cacheStore fa) = Inr block \<and> block \<in> set (cacheStore fa) \<and>
         sent st1 = sent fa @
           [SendTimingReq (writeback_of (fst block) (blockSize fa) (snd block)) (reqAccepted h)] \<and>
         MemSidePort_sendPacket fa (writeback_of (fst block) (blockSize fa) (snd block)) h =
           Inr stm \<and>
         cacheStore stm = cacheStore fa \<and>
         st1 = stm\<lparr>cacheStore :=
                 AList.update (getAddr pkt)
                   (writeDataToBlock pkt (replicate (blockSize fa) 0) (blockSize fa))
                   (AList.delete (fst block) (cacheStore stm))\<rparr>)) \<and>
   cmd (writeback_of t b l) = WritebackDirty \<and> getSize (writeback_of t b l) = b \<and>
   data (writeback_of t b l) = l \<and> paddr (req (writeback_of t b l)) = t \<and>
   getAddr (writeback_of t b l) = blockAlign t b \<and>
   (blockAlign t b = t \<longrightarrow> getAddr (writeback_of t b l) = t) \<and>
   (capacity dc \<noteq> 0 \<and> length (cacheStore dc) = capacity dc \<and>
    getAddr pkt = getBlockAddr pkt (blockSize dc) \<and>
    (snd (cacheStore dc ! (getBlockAddr pkt (blockSize dc) mod capacity dc)) = None \<or>
     fst (cacheStore dc ! (getBlockAddr pkt (blockSize dc) mod capacity dc)) \<noteq>
       getBlockAddr pkt (blockSize dc)) \<and>
    isResponse pkt \<and> memBlockedPacket (memPort dc) = None \<longrightarrow>
      \<not> isl (DirectCache_insert dc pkt h)) \<and>
   (\<not> optimizedAlgorithm fa \<and> getAddr pkt = getBlockAddr pkt (blockSize fa) \<and>
    map_of (cacheStore fa) (getAddr pkt) = None \<and> isResponse pkt \<and>
    memBlockedPacket (memPort fa) = None \<and>
    (length (cacheStore fa) < capacity fa \<or> \<not> isl (select_victim h (cacheStore fa))) \<longrightarrow>
      \<not> isl (FullyAssocCache_insert fa pkt h)) \<and>
   (e \<in> set (cacheStore fa) \<and> bucket_of h (fst e) < bucket_count h \<longrightarrow>
      \<not> isl (select_victim (h\<lparr>draws := [bucket_of h (fst e), 0]\<rparr>) (cacheStore fa)))"
proof -
  have d: "tag \<noteq> getBlockAddr pkt (blockSize dc) \<and>
      sent st1 = sent dc @
        [SendTimingReq (writeback_of tag (blockSize dc) victim) (reqAccepted h)] \<and>
      (\<exists>stm. MemSidePort_sendPacket dc (writeback_of tag (blockSize dc) victim) h = Inr stm \<and>
         cacheStore stm = cacheStore dc \<and>
         st1 = stm\<lparr>cacheStore := (cacheStore stm)
                 [getBlockAddr pkt (blockSize dc) mod capacity dc :=
                    (getBlockAddr pkt (blockSize dc),
                     Some (writeDataToBlock pkt (replicate (blockSize dc) 0) (blockSize dc)))]\<rparr>)"
    if "cacheStore dc ! (getBlockAddr pkt (blockSize dc) mod capacity dc) = (tag, Some victim)"
      and "DirectCache_insert dc pkt h = Inr st1" for st1 tag victim
    using DirectCache_insert_evicts[OF that(2) refl that(1) refl refl] .
  have f: "\<exists>block stm.
         select_victim h (cacheStore fa) = Inr block \<and> block \<in> set (cacheStore fa) \<and>
         sent st1 = sent fa @
           [SendTimingReq (writeback_of (fst block) (blockSize fa) (snd block)) (reqAccepted h)] \<and>
         MemSidePort_sendPacket fa (writeback_of (fst block) (blockSize fa) (snd block)) h =
           Inr stm \<and>
         cacheStore stm = cacheStore fa \<and>
         st1 = stm\<lparr>cacheStore :=
                 AList.update (getAddr pkt)
                   (writeDataToBlock pkt (replicate (blockSize fa) 0) (blockSize fa))
                   (AList.delete (fst block) (cacheStore stm))\<rparr>"
    if "capacity fa \<le> length (cacheStore fa)" and "FullyAssocCache_insert fa pkt h = Inr st1"
    for st1
    using FullyAssocCache_insert_evicts[OF that(2) that(1) refl] .
  have dt: "\<not> isl (DirectCache_insert dc pkt h)"
    if "capacity dc \<noteq> 0" "length (cacheStore dc) = capacity dc"
      "getAddr pkt = getBlockAddr pkt (blockSize dc)"
      "snd (cacheStore dc ! (getBlockAddr pkt (blockSize dc) mod capacity dc)) = None \<or>
       fst (cacheStore dc ! (getBlockAddr pkt (blockSize dc) mod capacity dc)) \<noteq>
         getBlockAddr pkt (blockSize dc)"
      "isResponse pkt" "memBlockedPacket (memPort dc) = None"
    using DirectCache_insert_total[OF that, of h] by auto
  have ft: "\<not> isl (FullyAssocCache_insert fa pkt h)"
    if "\<not> optimizedAlgorithm fa" "getAddr pkt = getBlockAddr pkt (blockSize fa)"
      "map_of (cacheStore fa) (getAddr pkt) = None" "isResponse pkt"
      "memBlockedPacket (memPort fa) = None"
      "length (cacheStore fa) < capacity fa \<or> \<not> isl (select_victim h (cacheStore fa))"
  proof -
    from that(6) have "length (cacheStore fa) < capacity fa \<or>
         (\<exists>block. select_victim h (cacheStore fa) = Inr block)"
      by (cases "select_victim h (cacheStore fa)") auto
    from FullyAssocCache_insert_total[OF that(1-5) this] show ?thesis by auto
  qed
  note sv = select_victim_returns[of e "cacheStore fa" h]
  note wf = writeback_of_fields[of t b l]
  show ?thesis
  proof (intro conjI allI impI)
    fix st1 tag victim
    assume a: "cacheStore dc ! (getBlockAddr pkt (blockSize dc) mod capacity dc) = (tag, Some victim) \<and>
      DirectCache_insert dc pkt h = Inr st1"
    from a have a1: "cacheStore dc ! (getBlockAddr pkt (blockSize dc) mod capacity dc) = (tag, Some victim)"
      and a2: "DirectCache_insert dc pkt h = Inr st1" by simp_all
    from d[OF a1 a2] show "tag \<noteq> getBlockAddr pkt (blockSize dc)" by simp
    from d[OF a1 a2] show "sent st1 = sent dc @
        [SendTimingReq (writeback_of tag (blockSize dc) victim) (reqAccepted h)]" by simp
    from d[OF a1 a2] show "\<exists>stm. MemSidePort_sendPacket dc (writeback_of tag (blockSize dc) victim) h = Inr stm \<and>
         cacheStore stm = cacheStore dc \<and>
         st1 = stm\<lparr>cacheStore := (cacheStore stm)
                 [getBlockAddr pkt (blockSize dc) mod capacity dc :=
                    (getBlockAddr pkt (blockSize dc),
                     Some (writeDataToBlock pkt (replicate (blockSize dc) 0) (blockSize dc)))]\<rparr>"
      by simp
  next
    fix st1
    assume "capacity fa \<le> length (cacheStore fa) \<and> FullyAssocCache_insert fa pkt h = Inr st1"
    then have b1: "capacity fa \<le> length (cacheStore fa)"
      and b2: "FullyAssocCache_insert fa pkt h = Inr st1" by simp_all
    from f[OF b1 b2] show "\<exists>block stm.
         select_victim h (cacheStore fa) = Inr block \<and> block \<in> set (cacheStore fa) \<and>
         sent st1 = sent fa @
           [SendTimingReq (writeback_of (fst block) (blockSize fa) (snd block)) (reqAccepted h)] \<and>
         MemSidePort_sendPacket fa (writeback_of (fst block) (blockSize fa) (snd block)) h =
           Inr stm \<and>
         cacheStore stm = cacheStore fa \<and>
         st1 = stm\<lparr>cacheStore :=
                 AList.update (getAddr pkt)
                   (writeDataToBlock pkt (replicate (blockSize fa) 0) (blockSize fa))
                   (AList.delete (fst block) (cacheStore stm))\<rparr>" .
  next
    show "cmd (writeback_of t b l) = WritebackDirty" by (rule wf)
    show "getSize (writeback_of t b l) = b" by (rule wf)
    show "data (writeback_of t b l) = l" by (rule wf)
    show "paddr (req (writeback_of t b l)) = t" by (rule wf)
    show "getAddr (writeback_of t b l) = blockAlign t b" by (rule wf)
    show "getAddr (writeback_of t b l) = t" if "blockAlign t b = t" using wf(3) that by simp
  next
    assume "capacity dc \<noteq> 0 \<and> length (cacheStore dc) = capacity dc \<and>
      getAddr pkt = getBlockAddr pkt (blockSize dc) \<and>
      (snd (cacheStore dc ! (getBlockAddr pkt (blockSize dc) mod capacity dc)) = None \<or>
       fst (cacheStore dc ! (getBlockAddr pkt (blockSize dc) mod capacity dc)) \<noteq>
         getBlockAddr pkt (blockSize dc)) \<and>
      isResponse pkt \<and> memBlockedPacket (memPort dc) = None"
    then show "\<not> isl (DirectCache_insert dc pkt h)" using dt by blast
  next
    assume "\<not> optimizedAlgorithm fa \<and> getAddr pkt = getBlockAddr pkt (blockSize fa) \<and>
      map_of (cacheStore fa) (getAddr pkt) = None \<and> isResponse pkt \<and>
      memBlockedPacket (memPort fa) = None \<and>
      (length (cacheStore fa) < capacity fa \<or> \<not> isl (select_victim h (cacheStore fa)))"
    then show "\<not> isl (FullyAssocCache_insert fa pkt h)" using ft by blast
  next
    assume "e \<in> set (cacheStore fa) \<and> bucket_of h (fst e) < bucket_count h"
    then show "\<not> isl (select_victim (h\<lparr>draws := [bucket_of h (fst e), 0]\<rparr>) (cacheStore fa))" using sv by blast
  qed
qed

theorem C4_writeback_on_eviction_witness:
  "cacheStore DirectCache_holding_0x40 !
      (getBlockAddr (block_response 0 64) (blockSize DirectCache_holding_0x40) mod
       capacity DirectCache_holding_0x40) = (0x40, Some (replicate 64 0)) \<and>
   (\<exists>st1. DirectCache_insert DirectCache_holding_0x40 (block_response 0 64) host_accepts =
            Inr st1 \<and>
          sent st1 = sent DirectCache_holding_0x40 @
            [SendTimingReq (writeback_of 0x40 (blockSize DirectCache_holding_0x40)
               (replicate 64 0)) (reqAccepted host_accepts)]) \<and>
   capacity FullyAssocCache_holding_0x40 \<le> length (cacheStore FullyAssocCache_holding_0x40) \<and>
   (\<exists>st1 block. FullyAssocCache_insert FullyAssocCache_holding_0x40 (block_response 0 64)
            host_accepts = Inr st1 \<and>
          block \<in> set (cacheStore FullyAssocCache_holding_0x40) \<and>
          sent st1 = sent FullyAssocCache_holding_0x40 @
            [SendTimingReq (writeback_of (fst block) (blockSize FullyAssocCache_holding_0x40)
               (snd block)) (reqAccepted host_accepts)])"
proof -
  let ?dc = DirectCache_holding_0x40
  let ?fa = FullyAssocCache_holding_0x40
  let ?p = "block_response 0 64"
  note t = C4_writeback_on_eviction[where dc = ?dc and fa = ?fa and pkt = ?p
      and h = host_accepts]
  have occ: "cacheStore ?dc ! (getBlockAddr ?p (blockSize ?dc) mod capacity ?dc) =
      (0x40, Some (replicate 64 0))" by code_simp
  have pre: "capacity ?dc \<noteq> 0 \<and> length (cacheStore ?dc) = capacity ?dc \<and>
    getAddr ?p = getBlockAddr ?p (blockSize ?dc) \<and>
    (snd (cacheStore ?dc ! (getBlockAddr ?p (blockSize ?dc) mod capacity ?dc)) = None \<or>
     fst (cacheStore ?dc ! (getBlockAddr ?p (blockSize ?dc) mod capacity ?dc)) \<noteq>
       getBlockAddr ?p (blockSize ?dc)) \<and>
    isResponse ?p \<and> memBlockedPacket (memPort ?dc) = None" by code_simp
  with t have "\<not> isl (DirectCache_insert ?dc ?p host_accepts)" by blast
  then obtain st1 where ins: "DirectCache_insert ?dc ?p host_accepts = Inr st1"
    by (cases "DirectCache_insert ?dc ?p host_accepts") auto
  from t occ ins have s: "sent st1 = sent ?dc @
        [SendTimingReq (writeback_of 0x40 (blockSize ?dc) (replicate 64 0))
           (reqAccepted host_accepts)]" by blast
  have full: "capacity ?fa \<le> length (cacheStore ?fa)" by code_simp
  have fpre: "\<not> optimizedAlgorithm ?fa \<and> getAddr ?p = getBlockAddr ?p (blockSize ?fa) \<and>
    map_of (cacheStore ?fa) (getAddr ?p) = None \<and> isResponse ?p \<and>
    memBlockedPacket (memPort ?fa) = None \<and>
    (length (cacheStore ?fa) < capacity ?fa \<or>
     \<not> isl (select_victim host_accepts (cacheStore ?fa)))" by code_simp
  with t have "\<not> isl (FullyAssocCache_insert ?fa ?p host_accepts)" by blast
  then obtain st2 where fins: "FullyAssocCache_insert ?fa ?p host_accepts = Inr st2"
    by (cases "FullyAssocCache_insert ?fa ?p host_accepts") auto
  from t full fins obtain block where "block \<in> set (cacheStore ?fa)"
    and "sent st2 = sent ?fa @
           [SendTimingReq (writeback_of (fst block) (blockSize ?fa) (snd block))
              (reqAccepted host_accepts)]" by blast
  with occ ins s full fins show ?thesis by blast
qed

subsection \<open>The invariants hold in every reachable state\<close>

text \<open>
  C7. In every state that DirectCache or FullyAssocCache reaches from its
  initial state through the callbacks of the host (recvTimingReq and with it
  handleRequest, the access event and with it accessTiming, recvTimingResp and
  with it handleResponse, insert and sendResponse, the two retries,
  recvFunctional and with it handleFunctional): blocked holds exactly when
  waitingPortId is not -1; a parked original packet implies blocked; no two
  resident lines have the same block address; and there are at most capacity
  resident lines.
\<close>

theorem C7_invariants:
  "(run DirectCache_step evs (DirectCache_new blkSize cap n) = Inr dc \<longrightarrow>
      (blocked dc \<longleftrightarrow> waitingPortId dc \<noteq> -1) \<and>
      (originalPacket dc \<noteq> None \<longrightarrow> blocked dc) \<and>
      distinct (DirectCache_resident dc) \<and>
      length (DirectCache_resident dc) \<le> capacity dc) \<and>
   (run FullyAssocCache_step evs (FullyAssocCache_new blkSize cap n opt) = Inr fa \<longrightarrow>
      (blocked fa \<longleftrightarrow> waitingPortId fa \<noteq> -1) \<and>
      (originalPacket fa \<noteq> None \<longrightarrow> blocked fa) \<and>
      distinct (FullyAssocCache_resident fa) \<and>
      length (FullyAssocCache_resident fa) \<le> capacity fa)"
proof (intro conjI impI)
  assume r: "run DirectCache_step evs (DirectCache_new blkSize cap n) = Inr dc"
  note c = DirectCache_reachable_controller_inv[OF r]
  note s = DirectCache_store_inv_resident[OF DirectCache_reachable_store_inv[OF r]]
  from c show "blocked dc \<longleftrightarrow> waitingPortId dc \<noteq> -1" by (simp add: controller_inv_def)
  from s show "distinct (DirectCache_resident dc)" by simp
  from s show "length (DirectCache_resident dc) \<le> capacity dc" by simp
  assume "originalPacket dc \<noteq> None"
  with c show "blocked dc" by (auto simp add: controller_inv_def)
next
  assume r: "run FullyAssocCache_step evs (FullyAssocCache_new blkSize cap n opt) = Inr fa"
  note c = FullyAssocCache_reachable_controller_inv[OF r]
  note s = FullyAssocCache_reachable_store_inv[OF r]
  from c show "blocked fa \<longleftrightarrow> waitingPortId fa \<noteq> -1" by (simp add: controller_inv_def)
  from s show "distinct (FullyAssocCache_resident fa)"
    by (simp add: FullyAssocCache_store_inv_def FullyAssocCache_resident_def)
  from s show "length (FullyAssocCache_resident fa) \<le> capacity fa"
    by (simp add: FullyAssocCache_store_inv_def FullyAssocCache_resident_def)
  assume "originalPacket fa \<noteq> None"
  with c show "blocked fa" by (auto simp add: controller_inv_def)
qed

theorem C7_invariants_witness:
  "(\<exists>dc. run DirectCache_step parked_writeback_run (DirectCache_new 64 2 1) = Inr dc \<and>
      (blocked dc \<longleftrightarrow> waitingPortId dc \<noteq> -1) \<and>
      distinct (DirectCache_resident dc) \<and>
      length (DirectCache_resident dc) \<le> capacity dc) \<and>
   (\<exists>fa. run FullyAssocCache_step parked_writeback_run (FullyAssocCache_new 64 1 1 False) =
          Inr fa \<and>
      (blocked fa \<longleftrightarrow> waitingPortId fa \<noteq> -1) \<and>
      distinct (FullyAssocCache_resident fa) \<and>
      length (FullyAssocCache_resident fa) \<le> capacity fa)"
proof -
  have "\<not> isl (run DirectCache_step parked_writeback_run (DirectCache_new 64 2 1))"
    by code_simp
  then obtain dc where
    d: "run DirectCache_step parked_writeback_run (DirectCache_new 64 2 1) = Inr dc"
    by (cases "run DirectCache_step parked_writeback_run (DirectCache_new 64 2 1)") auto
  have "\<not> isl (run FullyAssocCache_step parked_writeback_run (FullyAssocCache_new 64 1 1 False))"
    by code_simp
  then obtain fa where
    f: "run FullyAssocCache_step parked_writeback_run (FullyAssocCache_new 64 1 1 False) = Inr fa"
    by (cases "run FullyAssocCache_step parked_writeback_run (FullyAssocCache_new 64 1 1 False)")
      auto
  from C7_invariants[of parked_writeback_run 64 2 1 dc False fa] d
  have "(blocked dc \<longleftrightarrow> waitingPortId dc \<noteq> -1) \<and> distinct (DirectCache_resident dc) \<and>
      length (DirectCache_resident dc) \<le> capacity dc" by blast
  moreover from C7_invariants[of parked_writeback_run 64 1 1 _ False fa] f
  have "(blocked fa \<longleftrightarrow> waitingPortId fa \<noteq> -1) \<and> distinct (FullyAssocCache_resident fa) \<and>
      length (FullyAssocCache_resident fa) \<le> capacity fa" by blast
  ultimately show ?thesis using d f by blast
qed

subsection \<open>A send on a port that holds a parked packet\<close>

text \<open>
  C6. The claim is that sendPacket of either port is never called while the port
  holds a parked packet, also for the writeback that insert sends. It fails on
  the memory side. One initiator writes 4 bytes to block 0x00, then to block
  0x80, then reads block 0x100, in a cache of two 64-byte blocks; the
  memory side refuses the writeback of block 0x00 that the second response
  causes, so the port parks it, and the response goes up and unblocks the
  cache. The third request is accepted. When its access event runs before the
  memory side has called recvReqRetry, accessTiming misses and calls
  MemSidePort::sendPacket with the writeback still parked: the panic
  "Should never try to send if blocked!" fires. On the CPU side the claim
  holds: no execution ends in the panic of CPUSidePort::sendPacket (lemma
  \<open>DirectCache_cpu_side_never_sends_while_parked\<close>).
\<close>

theorem C6_parked_writeback_blocks_next_miss:
  "(case run DirectCache_step parked_writeback_run (DirectCache_new 64 2 1) of
      Inl e \<Rightarrow> False
    | Inr st \<Rightarrow>
        blocked st \<and> outstanding st = None \<and>
        memBlockedPacket (memPort st) =
          Some (writeback_of 0 64 ([1, 2, 3, 4] @ replicate 60 0)) \<and>
        accessEvents st = [read_request 0x100 4] \<and>
        DirectCache_step (AccessEvent host_accepts) st =
          Inl (Panic ''MemSidePort::sendPacket'' ''Should never try to send if blocked!''))"
  by code_simp

subsection \<open>Functional accesses and the two counters\<close>

text \<open>
  C9. handleFunctional of DirectCache, whenever it completes, leaves blocked,
  waitingPortId, hits, misses and the list of resident block addresses as they
  were (a functional write that hits changes bytes of the resident line only);
  it completes for every read and write. Every accessTiming that completes has
  incremented exactly one of hits and misses, by one. And in every state
  reachable from the initial one, hits + misses is the number of access events
  that ran.
\<close>

theorem C9_functional_frame_and_counters:
  "(handleFunctional DirectCache_accessFunctional st pkt = Inr (st1, pkt1) \<longrightarrow>
      blocked st1 = blocked st \<and> waitingPortId st1 = waitingPortId st \<and>
      hits st1 = hits st \<and> misses st1 = misses st \<and>
      DirectCache_resident st1 = DirectCache_resident st) \<and>
   ((isRead pkt \<or> isWrite pkt) \<and> capacity st \<noteq> 0 \<and> length (cacheStore st) = capacity st \<longrightarrow>
      \<not> isl (handleFunctional DirectCache_accessFunctional st pkt)) \<and>
   (accessTiming DirectCache_accessFunctional st pkt h = Inr st2 \<longrightarrow>
      (hits st2 = hits st + 1 \<and> misses st2 = misses st) \<or>
      (hits st2 = hits st \<and> misses st2 = misses st + 1)) \<and>
   (run DirectCache_step evs (DirectCache_new blkSize cap n) = Inr st3 \<longrightarrow>
      hits st3 + misses st3 = timingAccesses st3)"
proof (intro conjI impI)
  assume r: "handleFunctional DirectCache_accessFunctional st pkt = Inr (st1, pkt1)"
  then obtain hit sa pa where a: "DirectCache_accessFunctional st pkt = Inr (hit, sa, pa)"
    and e: "st1 = sa \<or> st1 = sa\<lparr>sent := sent sa @ [SendFunctional pa]\<rparr>"
    by (auto simp add: handleFunctional_def split: sum.splits if_splits)
  note f = DirectCache_accessFunctional_Inr[OF a]
  note k = store_only_fields[OF f(1)]
  have res: "DirectCache_resident sa = DirectCache_resident st"
    unfolding DirectCache_resident_def by (rule resident_cong[OF f(2) f(3)])
  from e k show "blocked st1 = blocked st" by auto
  from e k show "waitingPortId st1 = waitingPortId st" by auto
  from e k show "hits st1 = hits st" by auto
  from e k show "misses st1 = misses st" by auto
  from e res show "DirectCache_resident st1 = DirectCache_resident st"
    by (auto simp add: DirectCache_resident_def)
next
  assume "(isRead pkt \<or> isWrite pkt) \<and> capacity st \<noteq> 0 \<and> length (cacheStore st) = capacity st"
  then have "\<not> isl (DirectCache_accessFunctional st pkt)"
    using DirectCache_accessFunctional_total by blast
  then show "\<not> isl (handleFunctional DirectCache_accessFunctional st pkt)"
    by (cases "DirectCache_accessFunctional st pkt")
      (auto simp add: handleFunctional_def split: if_splits)
next
  assume "accessTiming DirectCache_accessFunctional st pkt h = Inr st2"
  then show "(hits st2 = hits st + 1 \<and> misses st2 = misses st) \<or>
      (hits st2 = hits st \<and> misses st2 = misses st + 1)"
  proof (cases rule: accessTiming_cases)
    case (hit sa pk)
    note k = store_only_fields[OF DirectCache_A1[OF hit(1)]]
    from sendResponse_ports_only[OF hit(2)]
    have po: "ports_only (sa\<lparr>hits := hits sa + 1, blocked := False, waitingPortId := -1\<rparr>) st2"
      by simp
    note pf = ports_only_fields[OF po]
    from pf k show ?thesis by simp
  next
    case (forward sa pk)
    note k = store_only_fields[OF DirectCache_A1[OF forward(1)]]
    note m = MemSidePort_sendPacket_Inr[OF forward(4)]
    show ?thesis unfolding m(2) using k by simp
  next
    case (upgrade sa pk)
    note k = store_only_fields[OF DirectCache_A1[OF upgrade(1)]]
    note m = MemSidePort_sendPacket_Inr[OF upgrade(6)]
    show ?thesis unfolding m(2) using k by simp
  qed
next
  assume "run DirectCache_step evs (DirectCache_new blkSize cap n) = Inr st3"
  from DirectCache_reachable_controller_inv[OF this]
  show "hits st3 + misses st3 = timingAccesses st3" by (simp add: controller_inv_def)
qed

theorem C9_functional_frame_and_counters_witness:
  "isWrite (write_request 0x44 [1, 2, 3, 4]) \<and>
   capacity DirectCache_holding_0x40 \<noteq> 0 \<and>
   length (cacheStore DirectCache_holding_0x40) = capacity DirectCache_holding_0x40 \<and>
   (\<exists>st1 pkt1. handleFunctional DirectCache_accessFunctional DirectCache_holding_0x40
        (write_request 0x44 [1, 2, 3, 4]) = Inr (st1, pkt1) \<and>
      cacheStore st1 \<noteq> cacheStore DirectCache_holding_0x40 \<and>
      blocked st1 = blocked DirectCache_holding_0x40 \<and>
      hits st1 = hits DirectCache_holding_0x40 \<and>
      misses st1 = misses DirectCache_holding_0x40 \<and>
      DirectCache_resident st1 = DirectCache_resident DirectCache_holding_0x40) \<and>
   (\<exists>st2. accessTiming DirectCache_accessFunctional
        (DirectCache_holding_0x40\<lparr>blocked := True, waitingPortId := 0\<rparr>)
        (write_request 0x44 [1, 2, 3, 4]) host_accepts = Inr st2 \<and>
      hits st2 = 1 \<and> misses st2 = 0) \<and>
   (\<exists>st3. run DirectCache_step parked_writeback_run (DirectCache_new 64 2 1) = Inr st3 \<and>
      hits st3 + misses st3 = timingAccesses st3 \<and> timingAccesses st3 = 2)"
proof -
  let ?st = DirectCache_holding_0x40
  let ?sb = "DirectCache_holding_0x40\<lparr>blocked := True, waitingPortId := 0\<rparr>"
  let ?w = "write_request 0x44 [1, 2, 3, 4]"
  have h1: "isWrite ?w" by code_simp
  have h2: "capacity ?st \<noteq> 0" by code_simp
  have h3: "length (cacheStore ?st) = capacity ?st" by code_simp
  note t = C9_functional_frame_and_counters[where st = ?st and pkt = ?w]
  from t h1 h2 h3 have "\<not> isl (handleFunctional DirectCache_accessFunctional ?st ?w)" by blast
  then obtain st1 pkt1 where
    f: "handleFunctional DirectCache_accessFunctional ?st ?w = Inr (st1, pkt1)"
    by (cases "handleFunctional DirectCache_accessFunctional ?st ?w") auto
  from t f have fr: "blocked st1 = blocked ?st \<and> hits st1 = hits ?st \<and> misses st1 = misses ?st \<and>
      DirectCache_resident st1 = DirectCache_resident ?st" by blast
  have "(case handleFunctional DirectCache_accessFunctional ?st ?w of
           Inl e \<Rightarrow> False | Inr (s, p) \<Rightarrow> cacheStore s \<noteq> cacheStore ?st)" by code_simp
  with f have ch: "cacheStore st1 \<noteq> cacheStore ?st" by simp
  have "(case accessTiming DirectCache_accessFunctional ?sb ?w host_accepts of
           Inl e \<Rightarrow> False | Inr s \<Rightarrow> hits s = 1 \<and> misses s = 0)" by code_simp
  then obtain st2 where a: "accessTiming DirectCache_accessFunctional ?sb ?w host_accepts = Inr st2"
    and a': "hits st2 = 1 \<and> misses st2 = 0"
    by (cases "accessTiming DirectCache_accessFunctional ?sb ?w host_accepts") auto
  have "(case run DirectCache_step parked_writeback_run (DirectCache_new 64 2 1) of
           Inl e \<Rightarrow> False | Inr s \<Rightarrow> timingAccesses s = 2)" by code_simp
  then obtain st3 where
    r: "run DirectCache_step parked_writeback_run (DirectCache_new 64 2 1) = Inr st3"
    and r': "timingAccesses st3 = 2"
    by (cases "run DirectCache_step parked_writeback_run (DirectCache_new 64 2 1)") auto
  from C9_functional_frame_and_counters[where evs = parked_writeback_run and blkSize = 64
      and cap = 2 and n = 1 and ?st3.0 = st3] r
  have "hits st3 + misses st3 = timingAccesses st3" by blast
  with h1 h2 h3 f fr ch a a' r r' show ?thesis by blast
qed

end
